theory Spec2Isabelle
  imports Main "HOL-Library.Char_ord" "HOL-Library.List_Lexorder" "HOL-Library.Multiset"
begin

section \<open>Python strings\<close>

text \<open>
  A Python \<open>str\<close> is modelled as a \<open>string\<close>: the UTF-8 bytes of the text. The keys, tag
  values and header values handled by the four handlers are compared, sliced and split at
  ASCII characters only, and byte-wise lexicographic order of UTF-8 is code point order, so
  \<open>==\<close>, \<open><\<close>, \<open>startswith\<close>, \<open>endswith\<close>, slicing at ASCII prefixes and \<open>split\<close> agree
  with Python on this representation.
\<close>

definition startswith :: "string \<Rightarrow> string \<Rightarrow> bool" where
  "startswith s p = (take (length p) s = p)"

definition endswith :: "string \<Rightarrow> string \<Rightarrow> bool" where
  "endswith s p = (length p \<le> length s \<and> drop (length s - length p) s = p)"

text \<open>
  \<open>s[a:-b]\<close> for literals \<open>a\<close>, \<open>b > 0\<close>: Python clamps both ends, so a string shorter
  than \<open>b\<close> gives the empty string, as the truncating subtraction does here.
\<close>

definition slice_from_to_end :: "string \<Rightarrow> nat \<Rightarrow> nat \<Rightarrow> string" where
  "slice_from_to_end s a b = drop a (take (length s - b) s)"

text \<open>\<open>s.split(c)\<close> for a one-character separator: never empty, one more part than separators.\<close>

fun split :: "string \<Rightarrow> char \<Rightarrow> string list" where
  "split [] c = [[]]"
| "split (x # xs) c =
     (if x = c then [] # split xs c
      else (case split xs c of
              [] \<Rightarrow> [[x]]
            | w # ws \<Rightarrow> (x # w) # ws))"

text \<open>
  \<open>urllib.parse.unquote_plus\<close>: every \<open>+\<close> becomes a space, then every \<open>%XX\<close> with two
  hexadecimal digits becomes the byte \<open>XX\<close>; a \<open>%\<close> not followed by two hexadecimal digits
  stays. (Python then decodes the bytes as UTF-8 and replaces invalid sequences by U+FFFD;
  on byte strings that are valid UTF-8 after unquoting this is the identity.)
\<close>

definition hex_value :: "char \<Rightarrow> nat option" where
  "hex_value c =
     (let n = of_char c :: nat in
      if 48 \<le> n \<and> n \<le> 57 then Some (n - 48)
      else if 65 \<le> n \<and> n \<le> 70 then Some (n - 55)
      else if 97 \<le> n \<and> n \<le> 102 then Some (n - 87)
      else None)"

fun unquote :: "string \<Rightarrow> string" where
  "unquote (p # h # l # rest) =
     (if p = CHR ''%'' then
        (case (hex_value h, hex_value l) of
           (Some a, Some b) \<Rightarrow> char_of (16 * a + b) # unquote rest
         | _ \<Rightarrow> p # unquote (h # l # rest))
      else p # unquote (h # l # rest))"
| "unquote s = s"

definition unquote_plus :: "string \<Rightarrow> string" where
  "unquote_plus s = unquote (map (\<lambda>c. if c = CHR ''+'' then CHR '' '' else c) s)"

section \<open>JSON values\<close>

text \<open>
  What \<open>json.loads\<close> returns and \<open>json.dumps\<close> takes. Numbers are integers here: no
  handler computes with a number of a request. \<open>JObj\<close> holds the items of a dict, each
  key once.
\<close>

datatype json =
    JNull
  | JBool bool
  | JNum int
  | JStr string
  | JArr "json list"
  | JObj "(string \<times> json) list"

text \<open>Python truthiness: \<open>None\<close>, \<open>False\<close>, \<open>0\<close>, \<open>''\<close>, \<open>[]\<close> and \<open>{}\<close> are false.\<close>

fun truthy :: "json \<Rightarrow> bool" where
  "truthy JNull = False"
| "truthy (JBool b) = b"
| "truthy (JNum n) = (n \<noteq> 0)"
| "truthy (JStr s) = (s \<noteq> [])"
| "truthy (JArr xs) = (xs \<noteq> [])"
| "truthy (JObj kvs) = (kvs \<noteq> [])"

section \<open>Exceptions, the storage and email services\<close>

text \<open>
  The exceptions the handlers can meet. \<open>ClientError\<close> is botocore's (an error response
  of the service, such as 404 or 403); \<open>OtherError\<close> is any other exception a boto3 call
  raises (a connection error, missing credentials): it is an \<open>Exception\<close> but not a
  \<open>ClientError\<close>. \<open>AttributeError\<close> is Python's, raised by a method call on a value
  that has no such method. The string is \<open>str(e)\<close> (for an \<open>AttributeError\<close>, without the
  name of the value's type that Python puts in front).
\<close>

datatype exn =
    ClientError string
  | OtherError string
  | AttributeError string

fun is_ClientError :: "exn \<Rightarrow> bool" where
  "is_ClientError (ClientError m) = True"
| "is_ClientError _ = False"

fun str_exn :: "exn \<Rightarrow> string" where
  "str_exn (ClientError m) = m"
| "str_exn (OtherError m) = m"
| "str_exn (AttributeError m) = m"

type_synonym tag_set = "(string \<times> string) list"

text \<open>Every call a handler makes on the boto3 clients, with its arguments.\<close>

datatype call =
    GeneratePresignedUrl string string string nat
  | PutObjectTagging string string tag_set
  | GetObjectTagging string string
  | HeadObject string string
  | DeleteObjects string "string list"
  | ListObjectsV2 string string nat
  | SendEmail string string string string

record s3_object =
  obj_size :: nat
  obj_last_modified :: string
  obj_tags :: tag_set

text \<open>
  The configuration (\<open>os.environ\<close>) and the behaviour of the services that the code does
  not decide: \<open>fault c\<close> says whether the service fails the call \<open>c\<close> and with which
  exception, \<open>presigned\<close> is the URL that signing produces, \<open>str_other\<close> is Python's
  \<open>str()\<close> of a JSON value that is not a string. \<open>nonascii_decimal\<close> is the table of
  decimal digits of Python's Unicode database outside ASCII: the value of a character
  (given by its UTF-8 bytes) of the category Nd, \<open>None\<close> for every other character.
\<close>

record env =
  BUCKET :: string
  ALERT_EMAIL :: string
  API_KEY :: string
  fault :: "call \<Rightarrow> exn option"
  presigned :: "string \<Rightarrow> string \<Rightarrow> string \<Rightarrow> nat \<Rightarrow> string"
  str_other :: "json \<Rightarrow> string"
  nonascii_decimal :: "string \<Rightarrow> nat option"

text \<open>
  The world a handler runs in: the bucket's objects by key (an association list, first
  entry of a key counts; a bucket holds a key once) and the calls made so far, oldest
  first. An object's modification time is kept as its \<open>isoformat()\<close>. A call is logged
  whether it fails or not.
\<close>

record world =
  objects :: "(string \<times> s3_object) list"
  calls :: "call list"

definition logged :: "call \<Rightarrow> world \<Rightarrow> world" where
  "logged c w = w\<lparr>calls := calls w @ [c]\<rparr>"

definition generate_presigned_url ::
  "env \<Rightarrow> string \<Rightarrow> string \<Rightarrow> nat \<Rightarrow> world \<Rightarrow> (exn + string) \<times> world" where
  "generate_presigned_url e method key expires w =
     (let c = GeneratePresignedUrl method (BUCKET e) key expires in
      case fault e c of
        Some x \<Rightarrow> (Inl x, logged c w)
      | None \<Rightarrow> (Inr (presigned e method (BUCKET e) key expires), logged c w))"

definition head_object :: "env \<Rightarrow> string \<Rightarrow> world \<Rightarrow> (exn + unit) \<times> world" where
  "head_object e key w =
     (let c = HeadObject (BUCKET e) key in
      case fault e c of
        Some x \<Rightarrow> (Inl x, logged c w)
      | None \<Rightarrow>
          (case map_of (objects w) key of
             None \<Rightarrow> (Inl (ClientError ''Not Found''), logged c w)
           | Some obj \<Rightarrow> (Inr (), logged c w)))"

definition get_object_tagging :: "env \<Rightarrow> string \<Rightarrow> world \<Rightarrow> (exn + tag_set) \<times> world" where
  "get_object_tagging e key w =
     (let c = GetObjectTagging (BUCKET e) key in
      case fault e c of
        Some x \<Rightarrow> (Inl x, logged c w)
      | None \<Rightarrow>
          (case map_of (objects w) key of
             None \<Rightarrow> (Inl (ClientError ''NoSuchKey''), logged c w)
           | Some obj \<Rightarrow> (Inr (obj_tags obj), logged c w)))"

definition put_object_tagging ::
  "env \<Rightarrow> string \<Rightarrow> tag_set \<Rightarrow> world \<Rightarrow> (exn + unit) \<times> world" where
  "put_object_tagging e key tags w =
     (let c = PutObjectTagging (BUCKET e) key tags in
      case fault e c of
        Some x \<Rightarrow> (Inl x, logged c w)
      | None \<Rightarrow>
          (case map_of (objects w) key of
             None \<Rightarrow> (Inl (ClientError ''NoSuchKey''), logged c w)
           | Some obj \<Rightarrow>
               (Inr (),
                logged c (w\<lparr>objects :=
                  map (\<lambda>(k, ob). if k = key then (k, ob\<lparr>obj_tags := tags\<rparr>) else (k, ob))
                    (objects w)\<rparr>))))"

text \<open>A batched delete removes the keys it names; a key that does not exist is no error.\<close>

definition delete_objects :: "env \<Rightarrow> string list \<Rightarrow> world \<Rightarrow> (exn + unit) \<times> world" where
  "delete_objects e keys w =
     (let c = DeleteObjects (BUCKET e) keys in
      case fault e c of
        Some x \<Rightarrow> (Inl x, logged c w)
      | None \<Rightarrow>
          (Inr (), logged c (w\<lparr>objects := filter (\<lambda>(k, ob). k \<notin> set keys) (objects w)\<rparr>)))"

definition send_email ::
  "env \<Rightarrow> string \<Rightarrow> string \<Rightarrow> string \<Rightarrow> string \<Rightarrow> world \<Rightarrow> (exn + unit) \<times> world" where
  "send_email e source to_address subject body w =
     (let c = SendEmail source to_address subject body in
      case fault e c of
        Some x \<Rightarrow> (Inl x, logged c w)
      | None \<Rightarrow> (Inr (), logged c w))"

text \<open>An HTTP-shaped response; \<open>body\<close> is the value handed to \<open>json.dumps\<close>.\<close>

record 'b response =
  statusCode :: nat
  headers :: "(string \<times> string) list"
  body :: 'b

section \<open>manage.py\<close>

definition thumb_key :: "string \<Rightarrow> string" where
  "thumb_key clip_key =
     (let name = slice_from_to_end clip_key (length ''clips/'') (length ''.avi'')
      in ''thumbs/'' @ name @ ''_thumb.jpg'')"

definition set_keep_tag :: "env \<Rightarrow> string \<Rightarrow> string \<Rightarrow> world \<Rightarrow> (exn + unit) \<times> world" where
  "set_keep_tag e clip_key v w =
     (let tag_set = [(''keep'', v)] in put_object_tagging e clip_key tag_set w)"

text \<open>
  \<open>delete_clip\<close>: the existence probe's \<open>ClientError\<close> is swallowed; any other exception
  of the probe, and any exception of the batched delete, leaves the function.
\<close>

definition delete_clip :: "env \<Rightarrow> string \<Rightarrow> world \<Rightarrow> (exn + unit) \<times> world" where
  "delete_clip e clip_key w =
     (let tk = thumb_key clip_key in
      case head_object e tk w of
        (Inr u, w1) \<Rightarrow> delete_objects e [clip_key, tk] w1
      | (Inl x, w1) \<Rightarrow>
          if is_ClientError x then delete_objects e [clip_key] w1
          else (Inl x, w1))"

text \<open>
  The event's \<open>body\<close> as \<open>json.loads(event.get('body') or '{}')\<close> treats it: absent, \<open>None\<close>
  or empty (then \<open>'{}'\<close> is parsed), a text that is no JSON or a value that is no text
  (\<open>JSONDecodeError\<close>, \<open>TypeError\<close>), or a text that parses to a JSON value.
\<close>

datatype request_body =
    NoBody
  | Undecodable
  | Decoded json

text \<open>\<open>body.get(k)\<close>: a dict's lookup; every other JSON value has no \<open>get\<close>.\<close>

fun body_get :: "json \<Rightarrow> string \<Rightarrow> exn + json" where
  "body_get (JObj kvs) k = (case map_of kvs k of None \<Rightarrow> Inr JNull | Some v \<Rightarrow> Inr v)"
| "body_get v k = Inl (AttributeError ''object has no attribute 'get' '')"

text \<open>\<open>f'{v}'\<close> of a JSON value.\<close>

fun py_str :: "env \<Rightarrow> json \<Rightarrow> string" where
  "py_str e (JStr s) = s"
| "py_str e v = str_other e v"

definition error_response :: "nat \<Rightarrow> string \<Rightarrow> json response" where
  "error_response code msg =
     \<lparr>statusCode = code, headers = [], body = JObj [(''error'', JStr msg)]\<rparr>"

definition ok_response :: "json response" where
  "ok_response =
     \<lparr>statusCode = 200, headers = [(''Content-Type'', ''application/json'')],
      body = JObj [(''ok'', JBool True)]\<rparr>"

text \<open>
  The three actions of the handler's second \<open>try\<close>; \<open>None\<close> is the \<open>else\<close> branch, which
  returns the 400 response without a call. A comparison of a value that is no string with
  \<open>'keep'\<close>, \<open>'unkeep'\<close> or \<open>'delete'\<close> is false.
\<close>

definition run_action ::
  "env \<Rightarrow> json \<Rightarrow> string \<Rightarrow> world \<Rightarrow> ((exn + unit) \<times> world) option" where
  "run_action e action clip_key w =
     (if action = JStr ''keep'' then Some (set_keep_tag e clip_key ''true'' w)
      else if action = JStr ''unkeep'' then Some (set_keep_tag e clip_key ''false'' w)
      else if action = JStr ''delete'' then Some (delete_clip e clip_key w)
      else None)"

definition manage_handler ::
  "env \<Rightarrow> request_body \<Rightarrow> world \<Rightarrow> (exn + json response) \<times> world" where
  "manage_handler e ev w =
     (case ev of
        Undecodable \<Rightarrow> (Inr (error_response 400 ''Invalid JSON body''), w)
      | _ \<Rightarrow>
        (let b = (case ev of Decoded v \<Rightarrow> v | _ \<Rightarrow> JObj []) in
         case body_get b ''action'' of
           Inl x \<Rightarrow> (Inl x, w)
         | Inr action \<Rightarrow>
             (case body_get b ''clip_key'' of
                Inl x \<Rightarrow> (Inl x, w)
              | Inr ck \<Rightarrow>
                  if \<not> truthy action \<or> \<not> truthy ck then
                    (Inr (error_response 400 ''Missing action or clip_key''), w)
                  else
                    (case ck of
                       JStr clip_key \<Rightarrow>
                         if \<not> startswith clip_key ''clips/'' \<or> \<not> endswith clip_key ''.avi'' then
                           (Inr (error_response 400 ''clip_key must be clips/*.avi''), w)
                         else
                           (case run_action e action clip_key w of
                              None \<Rightarrow>
                                (Inr (error_response 400
                                       (''Unknown action: '' @ py_str e action)), w)
                            | Some (Inl x, w1) \<Rightarrow>
                                if is_ClientError x
                                then (Inr (error_response 500 (str_exn x)), w1)
                                else (Inl x, w1)
                            | Some (Inr u, w1) \<Rightarrow> (Inr ok_response, w1))
                     | _ \<Rightarrow>
                         (Inl (AttributeError ''object has no attribute 'startswith' ''),
                          w)))))"

section \<open>presign.py\<close>

definition PUT_EXPIRY :: nat where
  "PUT_EXPIRY = 300"

text \<open>
  The event of the function URL: \<open>headers\<close> and \<open>queryStringParameters\<close> are dicts of
  strings, or absent.
\<close>

record presign_event =
  ev_headers :: "(string \<times> string) list option"
  queryStringParameters :: "(string \<times> string) list option"

definition json_response :: "nat \<Rightarrow> json \<Rightarrow> json response" where
  "json_response code b =
     \<lparr>statusCode = code, headers = [(''Content-Type'', ''application/json'')], body = b\<rparr>"

text \<open>\<open>not s\<close> for \<open>s = d.get(k)\<close> on a dict of strings: \<open>None\<close> and \<open>''\<close> are false.\<close>

fun present :: "string option \<Rightarrow> bool" where
  "present None = False"
| "present (Some s) = (s \<noteq> [])"

definition presign_handler ::
  "env \<Rightarrow> presign_event \<Rightarrow> world \<Rightarrow> (exn + json response) \<times> world" where
  "presign_handler e ev w =
     (let hs = (case ev_headers ev of None \<Rightarrow> [] | Some h \<Rightarrow> h) in
      if map_of hs ''x-api-key'' \<noteq> Some (API_KEY e) then
        (Inr (json_response 403 (JObj [(''error'', JStr ''Forbidden'')])), w)
      else
        (let params = (case queryStringParameters ev of None \<Rightarrow> [] | Some q \<Rightarrow> q);
             clip = map_of params ''clip'';
             thumb = map_of params ''thumb''
         in
         case (clip, thumb) of
           (Some c, Some t) \<Rightarrow>
             if \<not> present clip \<or> \<not> present thumb then
               (Inr (json_response 400
                      (JObj [(''error'', JStr ''Missing clip or thumb parameter'')])), w)
             else
               (case generate_presigned_url e ''put_object'' (''clips/'' @ c) PUT_EXPIRY w of
                  (Inl x, w1) \<Rightarrow> (Inl x, w1)
                | (Inr clip_url, w1) \<Rightarrow>
                    (case generate_presigned_url e ''put_object'' (''thumbs/'' @ t)
                            PUT_EXPIRY w1 of
                       (Inl x, w2) \<Rightarrow> (Inl x, w2)
                     | (Inr thumb_url, w2) \<Rightarrow>
                         (Inr (json_response 200
                                (JObj [(''clip_url'', JStr clip_url),
                                       (''thumb_url'', JStr thumb_url)])), w2)))
         | _ \<Rightarrow>
             (Inr (json_response 400
                    (JObj [(''error'', JStr ''Missing clip or thumb parameter'')])), w)))"

section \<open>notify.py\<close>

definition GET_EXPIRY :: nat where
  "GET_EXPIRY = 7 * 24 * 3600"

text \<open>
  One record of the S3 event is the URL-escaped key at \<open>record['s3']['object']['key']\<close>,
  which every record of an S3 notification carries. \<open>alert_subject\<close> and \<open>alert_body\<close>
  are the two f-strings (the dash of the subject is U+2014, three bytes); \<open>split\<close> gives
  at least one part, so \<open>[-1]\<close> and \<open>[0]\<close> are its last and first.

  \<open>notify_record\<close> is the body of the handler's \<open>for\<close> loop. Only \<open>put_object_tagging\<close> stands in a \<open>try\<close>,
  and its \<open>except Exception\<close> swallows every exception; an exception of
  \<open>generate_presigned_url\<close> or of \<open>send_email\<close> leaves the loop and the handler.
\<close>

definition alert_subject :: "string \<Rightarrow> string" where
  "alert_subject device_id =
     ''Motion detected '' @ [CHR 0xE2, CHR 0x80, CHR 0x94] @ '' '' @ device_id"

definition alert_body :: "string \<Rightarrow> string \<Rightarrow> string \<Rightarrow> string" where
  "alert_body device_id clip_name view_url =
     ''Motion detected on '' @ device_id @ [CHR 0x0A, CHR 0x0A]
     @ ''Clip: '' @ clip_name @ [CHR 0x0A, CHR 0x0A]
     @ ''Download / play (link expires in 7 days):'' @ [CHR 0x0A]
     @ view_url @ [CHR 0x0A]"

definition notify_record :: "env \<Rightarrow> string \<Rightarrow> world \<Rightarrow> (exn + unit) \<times> world" where
  "notify_record e escaped_key w =
     (let key = unquote_plus escaped_key in
      if \<not> endswith key ''.avi'' then (Inr (), w)
      else
        (let clip_name = last (split key (CHR ''/''));
             device_id = hd (split clip_name (CHR ''_''))
         in
         case generate_presigned_url e ''get_object'' key GET_EXPIRY w of
           (Inl x, w1) \<Rightarrow> (Inl x, w1)
         | (Inr view_url, w1) \<Rightarrow>
             (let subject = alert_subject device_id;
                  body = alert_body device_id clip_name view_url
              in
              case send_email e (ALERT_EMAIL e) (ALERT_EMAIL e) subject body w1 of
                (Inl x, w2) \<Rightarrow> (Inl x, w2)
              | (Inr u, w2) \<Rightarrow>
                  (case put_object_tagging e key [(''keep'', ''false'')] w2 of
                     (r, w3) \<Rightarrow> (Inr (), w3)))))"

fun notify_records :: "env \<Rightarrow> string list \<Rightarrow> world \<Rightarrow> (exn + unit) \<times> world" where
  "notify_records e [] w = (Inr (), w)"
| "notify_records e (r # rs) w =
     (case notify_record e r w of
        (Inl x, w1) \<Rightarrow> (Inl x, w1)
      | (Inr u, w1) \<Rightarrow> notify_records e rs w1)"

text \<open>The event is its \<open>Records\<close> list, or has none: \<open>event.get('Records', [])\<close>.\<close>

definition notify_handler :: "env \<Rightarrow> string list option \<Rightarrow> world \<Rightarrow> (exn + unit) \<times> world" where
  "notify_handler e event w =
     notify_records e (case event of None \<Rightarrow> [] | Some rs \<Rightarrow> rs) w"

section \<open>list.py\<close>

subsection \<open>parse_timestamp\<close>

text \<open>
  The regular expressions work on the characters of a \<open>str\<close>. In its UTF-8 bytes a byte
  that is no continuation byte (\<open>10xxxxxx\<close>) starts a character, which extends over the
  continuation bytes that follow. A character is kept as its bytes.
\<close>

definition is_continuation :: "char \<Rightarrow> bool" where
  "is_continuation c = (128 \<le> (of_char c :: nat) \<and> (of_char c :: nat) < 192)"

function utf8_chars :: "string \<Rightarrow> string list" where
  "utf8_chars [] = []"
| "utf8_chars (c # cs) =
     (c # takeWhile is_continuation cs) # utf8_chars (dropWhile is_continuation cs)"
  by pat_completeness auto
termination
  by (relation "measure length") (auto simp: less_Suc_eq_le length_dropWhile_le)

text \<open>
  \<open>\d\<close> in a pattern for \<open>str\<close>, and the digits \<open>int()\<close> reads: every decimal digit of
  Unicode. In ASCII these are \<open>0\<close> to \<open>9\<close>; outside ASCII the table says. \<open>decimal\<close> gives
  the digit's value.
\<close>

definition decimal :: "env \<Rightarrow> string \<Rightarrow> nat option" where
  "decimal e ch =
     (case ch of
        [c] \<Rightarrow> (if 48 \<le> (of_char c :: nat) \<and> (of_char c :: nat) \<le> 57
                then Some ((of_char c :: nat) - 48) else None)
      | _ \<Rightarrow> nonascii_decimal e ch)"

text \<open>
  \<open>re.search(r'_(\d{8})_(\d{6})$', name)\<close>. Python's \<open>$\<close> matches at the end of the string
  and also just before a newline that ends the string; a match ends in a digit, so for a
  name that ends in a newline the only place is before that newline. The place fixes the 16
  characters of the match. The result is the two groups, each as its characters.
\<close>

definition search_stamp :: "env \<Rightarrow> string \<Rightarrow> (string list \<times> string list) option" where
  "search_stamp e name =
     (let cs = utf8_chars name;
          s = (if cs \<noteq> [] \<and> last cs = [CHR 0x0A] then butlast cs else cs);
          t = drop (length s - 16) s
      in
      if 16 \<le> length s
         \<and> take 1 t = [''_''] \<and> list_all (\<lambda>ch. decimal e ch \<noteq> None) (take 8 (drop 1 t))
         \<and> take 1 (drop 9 t) = [''_''] \<and> list_all (\<lambda>ch. decimal e ch \<noteq> None) (drop 10 t)
      then Some (take 8 (drop 1 t), drop 10 t)
      else None)"

record datetime =
  year :: nat
  month :: nat
  day :: nat
  hour :: nat
  minute :: nat
  second :: nat

text \<open>
  \<open>int(s)\<close> for a \<open>str\<close> of decimal digits, given as its characters; a leading space
  counts for nothing, as \<open>int()\<close> strips it.
\<close>

definition int_of_digits :: "env \<Rightarrow> string list \<Rightarrow> nat" where
  "int_of_digits e ds =
     foldl (\<lambda>a ch. 10 * a + (case decimal e ch of None \<Rightarrow> 0 | Some v \<Rightarrow> v)) 0 ds"

definition is_leap :: "nat \<Rightarrow> bool" where
  "is_leap y = (y mod 4 = 0 \<and> (y mod 100 \<noteq> 0 \<or> y mod 400 = 0))"

definition days_in_month :: "nat \<Rightarrow> nat \<Rightarrow> nat" where
  "days_in_month y m =
     (if m = 2 then (if is_leap y then 29 else 28)
      else if m = 4 \<or> m = 6 \<or> m = 9 \<or> m = 11 then 30
      else 31)"

text \<open>
  \<open>datetime.strptime(s, '%Y%m%d%H%M%S')\<close> on the 14 characters of the two groups; \<open>None\<close>
  is the \<open>ValueError\<close>. The format becomes the regular expression
  \<^verbatim>\<open>(?P<Y>\d\d\d\d)(?P<m>1[0-2]|0[1-9]|[1-9])(?P<d>3[0-1]|[1-2]\d|0[1-9]|[1-9]| [1-9])\<close>
  \<^verbatim>\<open>(?P<H>2[0-3]|[0-1]\d|\d)(?P<M>[0-5]\d|\d)(?P<S>6[0-1]|[0-5]\d|\d)\<close>,
  matched at the start; what it leaves unconverted is an error. The fields take at most 4,
  2, 2, 2, 2 and 2 characters and each tries its two-character alternatives first, so the
  14 characters parse exactly when each field matches one of its two-character
  alternatives on its own characters (for the day, the last alternative is one of them: a
  space and a digit). A class such as \<open>[0-5]\<close> holds ASCII digits only; \<open>\d\<close> holds every
  decimal digit. \<open>ascii_digit_in ch lo hi\<close> is the class \<open>[lo-hi]\<close>.
\<close>

definition ascii_digit_in :: "string \<Rightarrow> nat \<Rightarrow> nat \<Rightarrow> bool" where
  "ascii_digit_in ch lo hi =
     (case ch of
        [c] \<Rightarrow> 48 + lo \<le> (of_char c :: nat) \<and> (of_char c :: nat) \<le> 48 + hi
      | _ \<Rightarrow> False)"

fun match_Y :: "env \<Rightarrow> string list \<Rightarrow> bool" where
  "match_Y e [a, b, c, d] =
     (decimal e a \<noteq> None \<and> decimal e b \<noteq> None \<and> decimal e c \<noteq> None \<and> decimal e d \<noteq> None)"
| "match_Y e cs = False"

fun match_m :: "string list \<Rightarrow> bool" where
  "match_m [a, b] =
     (ascii_digit_in a 1 1 \<and> ascii_digit_in b 0 2 \<or> ascii_digit_in a 0 0 \<and> ascii_digit_in b 1 9)"
| "match_m cs = False"

fun match_d :: "env \<Rightarrow> string list \<Rightarrow> bool" where
  "match_d e [a, b] =
     (ascii_digit_in a 3 3 \<and> ascii_digit_in b 0 1 \<or> ascii_digit_in a 1 2 \<and> decimal e b \<noteq> None
      \<or> ascii_digit_in a 0 0 \<and> ascii_digit_in b 1 9 \<or> a = '' '' \<and> ascii_digit_in b 1 9)"
| "match_d e cs = False"

fun match_H :: "env \<Rightarrow> string list \<Rightarrow> bool" where
  "match_H e [a, b] =
     (ascii_digit_in a 2 2 \<and> ascii_digit_in b 0 3 \<or> ascii_digit_in a 0 1 \<and> decimal e b \<noteq> None)"
| "match_H e cs = False"

fun match_M :: "env \<Rightarrow> string list \<Rightarrow> bool" where
  "match_M e [a, b] = (ascii_digit_in a 0 5 \<and> decimal e b \<noteq> None)"
| "match_M e cs = False"

fun match_S :: "env \<Rightarrow> string list \<Rightarrow> bool" where
  "match_S e [a, b] =
     (ascii_digit_in a 6 6 \<and> ascii_digit_in b 0 1 \<or> ascii_digit_in a 0 5 \<and> decimal e b \<noteq> None)"
| "match_S e cs = False"

text \<open>
  The fields are read by \<open>int()\<close>. The \<open>date\<close> and \<open>datetime\<close> constructors then raise
  \<open>ValueError\<close> unless the year is in 1..9999, the month in 1..12, the day in the month,
  the hour in 0..23, the minute and the second in 0..59 (the format lets a second of 60 or
  61 pass).
\<close>

definition strptime :: "env \<Rightarrow> string list \<Rightarrow> datetime option" where
  "strptime e cs =
     (if length cs = 14 \<and> match_Y e (take 4 cs) \<and> match_m (take 2 (drop 4 cs))
         \<and> match_d e (take 2 (drop 6 cs)) \<and> match_H e (take 2 (drop 8 cs))
         \<and> match_M e (take 2 (drop 10 cs)) \<and> match_S e (take 2 (drop 12 cs))
      then
        (let y = int_of_digits e (take 4 cs);
             m = int_of_digits e (take 2 (drop 4 cs));
             d = int_of_digits e (take 2 (drop 6 cs));
             hh = int_of_digits e (take 2 (drop 8 cs));
             mm = int_of_digits e (take 2 (drop 10 cs));
             ss = int_of_digits e (take 2 (drop 12 cs))
         in
         if 1 \<le> y \<and> y \<le> 9999 \<and> 1 \<le> m \<and> m \<le> 12 \<and> 1 \<le> d \<and> d \<le> days_in_month y m
            \<and> hh \<le> 23 \<and> mm \<le> 59 \<and> ss \<le> 59
         then Some \<lparr>year = y, month = m, day = d, hour = hh, minute = mm, second = ss\<rparr>
         else None)
      else None)"

text \<open>\<open>'%02d' % n\<close> and \<open>'%04d' % n\<close> for a field of a \<open>datetime\<close> (below 100, below 10000).\<close>

definition digit_char :: "nat \<Rightarrow> char" where
  "digit_char n = char_of (48 + n mod 10)"

definition pad2 :: "nat \<Rightarrow> string" where
  "pad2 n = [digit_char (n div 10), digit_char n]"

definition pad4 :: "nat \<Rightarrow> string" where
  "pad4 n = [digit_char (n div 1000), digit_char (n div 100), digit_char (n div 10), digit_char n]"

text \<open>\<open>dt.replace(tzinfo=timezone.utc).isoformat()\<close>; the microsecond is 0 and not printed.\<close>

definition isoformat_utc :: "datetime \<Rightarrow> string" where
  "isoformat_utc dt =
     pad4 (year dt) @ ''-'' @ pad2 (month dt) @ ''-'' @ pad2 (day dt) @ ''T''
     @ pad2 (hour dt) @ '':'' @ pad2 (minute dt) @ '':'' @ pad2 (second dt) @ ''+00:00''"

definition parse_timestamp :: "env \<Rightarrow> string \<Rightarrow> string option" where
  "parse_timestamp e name =
     (case search_stamp e name of
        None \<Rightarrow> None
      | Some (g1, g2) \<Rightarrow>
          (case strptime e (g1 @ g2) of
             None \<Rightarrow> None
           | Some dt \<Rightarrow> Some (isoformat_utc dt)))"

subsection \<open>The listing\<close>

text \<open>One entry of a page's \<open>Contents\<close>; \<open>LastModified\<close> is kept as its \<open>isoformat()\<close>.\<close>

record list_entry =
  Key :: string
  LastModified :: string
  Size :: nat

text \<open>A page has no \<open>Contents\<close> when the listing is empty.\<close>

record page =
  Contents :: "list_entry list option"

function chunks :: "nat \<Rightarrow> 'a list \<Rightarrow> 'a list list" where
  "chunks n xs = (if n = 0 \<or> xs = [] then [] else take n xs # chunks n (drop n xs))"
  by pat_completeness auto
termination
  by (relation "measure (\<lambda>(n, xs). length xs)") auto

declare chunks.simps [simp del]

text \<open>
  \<open>paginator.paginate(Bucket, Prefix, PageSize)\<close>: the objects under the prefix in key
  order, in pages of at most \<open>page_size\<close>. The pages are fetched in one logged call here;
  the handler changes nothing in the bucket between two pages.
\<close>

definition paginate :: "env \<Rightarrow> string \<Rightarrow> nat \<Rightarrow> world \<Rightarrow> (exn + page list) \<times> world" where
  "paginate e pfx page_size w =
     (let c = ListObjectsV2 (BUCKET e) pfx page_size in
      case fault e c of
        Some x \<Rightarrow> (Inl x, logged c w)
      | None \<Rightarrow>
          (let found =
                 map (\<lambda>(k, ob). \<lparr>Key = k, LastModified = obj_last_modified ob,
                                  Size = obj_size ob\<rparr>)
                   (sort_key fst (filter (\<lambda>(k, ob). startswith k pfx) (objects w)))
           in
           (Inr (if found = [] then [\<lparr>Contents = None\<rparr>]
                 else map (\<lambda>ch. \<lparr>Contents = Some ch\<rparr>) (chunks page_size found)),
            logged c w)))"

text \<open>
  The outcome of a tag read as a function of the bucket (the first component of
  \<open>get_object_tagging\<close>, which reads the bucket and changes the log only).
\<close>

definition read_tags :: "env \<Rightarrow> (string \<times> s3_object) list \<Rightarrow> string \<Rightarrow> exn + tag_set" where
  "read_tags e objs k =
     (case fault e (GetObjectTagging (BUCKET e) k) of
        Some x \<Rightarrow> Inl x
      | None \<Rightarrow> (case map_of objs k of
                   None \<Rightarrow> Inl (ClientError ''NoSuchKey'')
                 | Some ob \<Rightarrow> Inr (obj_tags ob)))"

text \<open>
  One record of the response. \<open>size_bytes\<close> is the \<open>Size\<close> that the response's \<open>size_mb\<close>
  is computed from (\<open>round(Size / 1_048_576, 2)\<close>, a floating point number).
\<close>

record clip =
  clip_key :: string
  clip_url :: string
  thumb_url :: "string option"
  timestamp :: string
  size_bytes :: nat
  kept :: bool

text \<open>
  The body of the inner \<open>for\<close> loop; \<open>Inr None\<close> is \<open>continue\<close>. In both \<open>try\<close> blocks only
  a \<open>ClientError\<close> is swallowed. The first holds the existence probe and the signing of
  the thumbnail's URL, the second the reading of the tags.
\<close>

definition list_entry_clip ::
  "env \<Rightarrow> list_entry \<Rightarrow> world \<Rightarrow> (exn + clip option) \<times> world" where
  "list_entry_clip e obj w =
     (let key = Key obj in
      if \<not> endswith key ''.avi'' then (Inr None, w)
      else
        (let name = slice_from_to_end key (length ''clips/'') (length ''.avi'') in
         case generate_presigned_url e ''get_object'' key GET_EXPIRY w of
           (Inl x, w1) \<Rightarrow> (Inl x, w1)
         | (Inr c_url, w1) \<Rightarrow>
             (let thumb_key = ''thumbs/'' @ name @ ''_thumb.jpg'';
                  probe =
                    (case head_object e thumb_key w1 of
                       (Inl x, w2) \<Rightarrow> (Inl x, w2)
                     | (Inr u, w2) \<Rightarrow>
                         (case generate_presigned_url e ''get_object'' thumb_key GET_EXPIRY w2 of
                            (Inl x, w3) \<Rightarrow> (Inl x, w3)
                          | (Inr t_url, w3) \<Rightarrow> (Inr (Some t_url), w3)));
                  thumb =
                    (case probe of
                       (Inl x, w3) \<Rightarrow> if is_ClientError x then (Inr None, w3) else (Inl x, w3)
                     | (Inr t, w3) \<Rightarrow> (Inr t, w3))
              in
              case thumb of
                (Inl x, w3) \<Rightarrow> (Inl x, w3)
              | (Inr t_url, w3) \<Rightarrow>
                  (let ts = (case parse_timestamp e name of
                               Some t \<Rightarrow> t
                             | None \<Rightarrow> LastModified obj)
                   in
                   case get_object_tagging e key w3 of
                     (Inl x, w4) \<Rightarrow>
                       if is_ClientError x then
                         (Inr (Some \<lparr>clip_key = key, clip_url = c_url, thumb_url = t_url,
                                     timestamp = ts, size_bytes = Size obj, kept = False\<rparr>), w4)
                       else (Inl x, w4)
                   | (Inr tags, w4) \<Rightarrow>
                       (Inr (Some \<lparr>clip_key = key, clip_url = c_url, thumb_url = t_url,
                                   timestamp = ts, size_bytes = Size obj,
                                   kept = list_ex (\<lambda>(k, v). k = ''keep'' \<and> v = ''true'') tags\<rparr>),
                        w4)))))"

text \<open>The two loops: the clips are appended in the order of the listing.\<close>

fun list_entries ::
  "env \<Rightarrow> list_entry list \<Rightarrow> clip list \<Rightarrow> world \<Rightarrow> (exn + clip list) \<times> world" where
  "list_entries e [] clips w = (Inr clips, w)"
| "list_entries e (obj # objs) clips w =
     (case list_entry_clip e obj w of
        (Inl x, w1) \<Rightarrow> (Inl x, w1)
      | (Inr None, w1) \<Rightarrow> list_entries e objs clips w1
      | (Inr (Some c), w1) \<Rightarrow> list_entries e objs (clips @ [c]) w1)"

fun list_pages ::
  "env \<Rightarrow> page list \<Rightarrow> clip list \<Rightarrow> world \<Rightarrow> (exn + clip list) \<times> world" where
  "list_pages e [] clips w = (Inr clips, w)"
| "list_pages e (p # ps) clips w =
     (case list_entries e (case Contents p of None \<Rightarrow> [] | Some objs \<Rightarrow> objs) clips w of
        (Inl x, w1) \<Rightarrow> (Inl x, w1)
      | (Inr clips1, w1) \<Rightarrow> list_pages e ps clips1 w1)"

text \<open>
  \<open>clips.sort(key=..., reverse=True)\<close>: Python's sort is stable, and with \<open>reverse=True\<close>
  it keeps the first of two equal keys first, as sorting the reversed list and reversing
  the result does.
\<close>

definition sort_newest_first :: "clip list \<Rightarrow> clip list" where
  "sort_newest_first clips = rev (sort_key timestamp (rev clips))"

definition list_handler :: "env \<Rightarrow> world \<Rightarrow> (exn + clip list response) \<times> world" where
  "list_handler e w =
     (case paginate e ''clips/'' 1000 w of
        (Inl x, w1) \<Rightarrow> (Inl x, w1)
      | (Inr pages, w1) \<Rightarrow>
          (case list_pages e pages [] w1 of
             (Inl x, w2) \<Rightarrow> (Inl x, w2)
           | (Inr clips, w2) \<Rightarrow>
               (Inr \<lparr>statusCode = 200,
                     headers = [(''Content-Type'', ''application/json'')],
                     body = sort_newest_first clips\<rparr>, w2)))"

section \<open>A bucket to run the handlers on\<close>

text \<open>
  A service that fails no call, and a bucket with two clips: the first has its thumbnail
  and the tag \<open>keep=false\<close>, the second has no thumbnail and the tag \<open>keep=true\<close>. Of the
  decimal digits outside ASCII the table holds the Arabic-Indic ones, U+0660 to U+0669 (in
  UTF-8 the byte D9 and a byte from A0 to A9).
\<close>

definition example_env :: env where
  "example_env =
     \<lparr>BUCKET = ''cam-bucket'', ALERT_EMAIL = ''ops@example.org'', API_KEY = ''s3cret'',
      fault = (\<lambda>c. None),
      presigned = (\<lambda>method bucket key expires. ''https://'' @ bucket @ ''/'' @ key @ ''?'' @ method),
      str_other = (\<lambda>v. ''?''),
      nonascii_decimal =
        (\<lambda>ch. case ch of
                [a, b] \<Rightarrow>
                  if a = CHR 0xD9 \<and> 160 \<le> (of_char b :: nat) \<and> (of_char b :: nat) \<le> 169
                  then Some ((of_char b :: nat) - 160) else None
              | _ \<Rightarrow> None)\<rparr>"

definition example_world :: world where
  "example_world =
     \<lparr>objects =
        [(''clips/cam1_20260221_120000.avi'',
          \<lparr>obj_size = 9856614, obj_last_modified = ''2026-02-21T12:00:41+00:00'',
           obj_tags = [(''keep'', ''false'')]\<rparr>),
         (''clips/cam2_20260222_080000.avi'',
          \<lparr>obj_size = 1048576, obj_last_modified = ''2026-02-22T08:00:30+00:00'',
           obj_tags = [(''keep'', ''true'')]\<rparr>),
         (''thumbs/cam1_20260221_120000_thumb.jpg'',
          \<lparr>obj_size = 20480, obj_last_modified = ''2026-02-21T12:00:43+00:00'',
           obj_tags = []\<rparr>)],
      calls = []\<rparr>"

text \<open>The same service, but the email service rejects every alert about \<open>cam1\<close>.\<close>

definition ses_rejects_cam1 :: env where
  "ses_rejects_cam1 =
     example_env\<lparr>fault :=
       (\<lambda>c. case c of
              SendEmail source to_address subject msg \<Rightarrow>
                if subject = alert_subject ''cam1'' then Some (ClientError ''MessageRejected'')
                else None
            | _ \<Rightarrow> None)\<rparr>"

text \<open>The same service, but every tag write times out.\<close>

definition tagging_times_out :: env where
  "tagging_times_out =
     example_env\<lparr>fault :=
       (\<lambda>c. case c of
              PutObjectTagging bucket key tags \<Rightarrow> Some (OtherError ''Read timed out'')
            | _ \<Rightarrow> None)\<rparr>"

text \<open>The same service, but reading the tags of the second clip is denied.\<close>

definition tag_read_denied :: env where
  "tag_read_denied =
     example_env\<lparr>fault :=
       (\<lambda>c. case c of
              GetObjectTagging bucket key \<Rightarrow>
                if key = ''clips/cam2_20260222_080000.avi'' then Some (ClientError ''AccessDenied'')
                else None
            | _ \<Rightarrow> None)\<rparr>"

section \<open>The key codec\<close>

lemma thumb_key_of_basename:
  "thumb_key (''clips/'' @ name @ ''.avi'') = ''thumbs/'' @ name @ ''_thumb.jpg''"
  by (simp add: thumb_key_def slice_from_to_end_def)

lemma strip_thumb_key:
  "slice_from_to_end (''thumbs/'' @ name @ ''_thumb.jpg'')
     (length ''thumbs/'') (length ''_thumb.jpg'') = name"
  by (simp add: slice_from_to_end_def)

text \<open>
  A key that passes the Retention Manager's check is \<open>clips/\<close>, a basename and \<open>.avi\<close>:
  the prefix and the suffix cannot overlap.
\<close>

lemma valid_clip_key_shape:
  assumes "startswith k ''clips/''" "endswith k ''.avi''"
  shows "k = ''clips/'' @ slice_from_to_end k (length ''clips/'') (length ''.avi'') @ ''.avi''"
proof -
  define r where "r = drop 6 k"
  from assms(1) have "take 6 k = ''clips/''" by (simp add: startswith_def eval_nat_numeral)
  then have k: "k = ''clips/'' @ r" unfolding r_def by (metis append_take_drop_id)
  from assms(2) have b: "drop (length k - 4) k = ''.avi''"
    by (simp add: endswith_def eval_nat_numeral)
  have len: "4 \<le> length r"
  proof (rule ccontr)
    assume "\<not> 4 \<le> length r"
    then consider "length r = 0" | "length r = 1" | "length r = 2" | "length r = 3" by linarith
    then show False
    proof cases
      case 1 then show ?thesis using b k by simp
    next
      case 2 then obtain a where "r = [a]" by (cases r) auto
      then show ?thesis using b k by simp
    next
      case 3 then obtain a c where "r = [a, c]" by (cases r; cases "tl r") auto
      then show ?thesis using b k by simp
    next
      case 4 then obtain a c d where "r = [a, c, d]"
        by (cases r; cases "tl r"; cases "tl (tl r)") auto
      then show ?thesis using b k by simp
    qed
  qed
  have "length k - 4 = length ''clips/'' + (length r - 4)" using k len by simp
  then have "drop (length k - 4) k = drop (length ''clips/'' + (length r - 4)) (''clips/'' @ r)"
    using k by simp
  also have "\<dots> = drop (length r - 4) r" by (simp only: drop_append drop_all) simp
  finally have "drop (length r - 4) r = ''.avi''" using b by simp
  then have "r = take (length r - 4) r @ ''.avi''" by (metis append_take_drop_id)
  then obtain m where m: "r = m @ ''.avi''" ..
  have "slice_from_to_end (''clips/'' @ m @ ''.avi'') (length ''clips/'') (length ''.avi'') = m"
    by (simp add: slice_from_to_end_def)
  then show ?thesis using k m by simp
qed

text \<open>
  C3. For a clip key \<open>clips/<d>_<YYYYMMDD>_<HHMMSS>.avi\<close> the derived thumbnail key is
  \<open>thumbs/<d>_<YYYYMMDD>_<HHMMSS>_thumb.jpg\<close>; stripping \<open>thumbs/\<close> and \<open>_thumb.jpg\<close> from
  it gives the basename back, which is also what stripping \<open>clips/\<close> and \<open>.avi\<close> from the
  clip key gives. The three parts of the basename may be any strings.
\<close>

theorem thumb_key_round_trip:
  "thumb_key (''clips/'' @ d @ ''_'' @ ymd @ ''_'' @ hms @ ''.avi'')
     = ''thumbs/'' @ d @ ''_'' @ ymd @ ''_'' @ hms @ ''_thumb.jpg''
   \<and> slice_from_to_end (thumb_key (''clips/'' @ d @ ''_'' @ ymd @ ''_'' @ hms @ ''.avi''))
         (length ''thumbs/'') (length ''_thumb.jpg'')
       = d @ ''_'' @ ymd @ ''_'' @ hms
   \<and> slice_from_to_end (''clips/'' @ d @ ''_'' @ ymd @ ''_'' @ hms @ ''.avi'')
         (length ''clips/'') (length ''.avi'')
       = d @ ''_'' @ ymd @ ''_'' @ hms"
  using thumb_key_of_basename [of "d @ ''_'' @ ymd @ ''_'' @ hms"]
        strip_thumb_key [of "d @ ''_'' @ ymd @ ''_'' @ hms"]
  by (simp add: slice_from_to_end_def)

theorem thumb_key_round_trip_witness:
  "thumb_key ''clips/cam1_20260221_120000.avi'' = ''thumbs/cam1_20260221_120000_thumb.jpg''
   \<and> slice_from_to_end (thumb_key ''clips/cam1_20260221_120000.avi'')
         (length ''thumbs/'') (length ''_thumb.jpg'')
       = ''cam1_20260221_120000''
   \<and> slice_from_to_end ''clips/cam1_20260221_120000.avi'' (length ''clips/'') (length ''.avi'')
       = ''cam1_20260221_120000''"
  using thumb_key_round_trip [of "''cam1''" "''20260221''" "''120000''"]
  by auto

section \<open>The Upload Authorizer\<close>

text \<open>
  C7. When the \<open>x-api-key\<close> header of the request is not the configured secret (or is
  absent), the handler answers 403 and the world is as before: no call is made, so no
  presigned URL is issued, whatever the \<open>clip\<close> and \<open>thumb\<close> parameters are.
\<close>

theorem presign_wrong_secret:
  assumes "map_of (case ev_headers ev of None \<Rightarrow> [] | Some h \<Rightarrow> h) ''x-api-key''
             \<noteq> Some (API_KEY e)"
  shows "presign_handler e ev w
           = (Inr (json_response 403 (JObj [(''error'', JStr ''Forbidden'')])), w)"
  using assms by (simp add: presign_handler_def)

theorem presign_wrong_secret_witness:
  "presign_handler example_env
     \<lparr>ev_headers = Some [(''x-api-key'', ''guess'')],
      queryStringParameters =
        Some [(''clip'', ''cam1_20260221_120000.avi''),
              (''thumb'', ''cam1_20260221_120000_thumb.jpg'')]\<rparr>
     example_world
   = (Inr \<lparr>statusCode = 403, headers = [(''Content-Type'', ''application/json'')],
           body = JObj [(''error'', JStr ''Forbidden'')]\<rparr>, example_world)"
  using presign_wrong_secret [of
      "\<lparr>ev_headers = Some [(''x-api-key'', ''guess'')],
        queryStringParameters =
          Some [(''clip'', ''cam1_20260221_120000.avi''),
                (''thumb'', ''cam1_20260221_120000_thumb.jpg'')]\<rparr>"
      example_env example_world]
  by (simp add: example_env_def json_response_def)

section \<open>The Retention Manager\<close>

lemma startswith_nonempty: "startswith k ''clips/'' \<Longrightarrow> k \<noteq> []"
  by (auto simp: startswith_def)

lemma thumb_key_neq:
  assumes "startswith k ''clips/''"
  shows "thumb_key k \<noteq> k"
proof
  assume eq: "thumb_key k = k"
  from assms have "take 6 k = ''clips/''" by (simp add: startswith_def eval_nat_numeral)
  then have "k = ''clips/'' @ drop 6 k" by (metis append_take_drop_id)
  then have "hd k = CHR ''c''" by (metis append_Cons list.sel(1))
  moreover have "hd (thumb_key k) = CHR ''t''" by (simp add: thumb_key_def)
  ultimately show False using eq by simp
qed

lemma head_object_calls:
  "head_object e k w = (r, w1) \<Longrightarrow> w1 = logged (HeadObject (BUCKET e) k) w"
  by (auto simp: head_object_def Let_def split: option.splits)

text \<open>
  C6. A \<open>delete\<close> on a valid clip key whose thumbnail probe raises a \<open>ClientError\<close> (as it
  does when the thumbnail does not exist) makes two calls: the probe, and one batched
  delete that names the clip alone. Unless the service fails that delete, the answer is
  the 200 response and the bucket has lost the clip and nothing else.
\<close>

theorem delete_without_thumbnail:
  assumes valid: "startswith ck ''clips/''" "endswith ck ''.avi''"
    and probe: "fst (head_object e (thumb_key ck) w) = Inl x" "is_ClientError x"
  shows "calls (snd (manage_handler e
                  (Decoded (JObj [(''action'', JStr ''delete''), (''clip_key'', JStr ck)])) w))
           = calls w @ [HeadObject (BUCKET e) (thumb_key ck), DeleteObjects (BUCKET e) [ck]]
         \<and> (fault e (DeleteObjects (BUCKET e) [ck]) = None \<longrightarrow>
              manage_handler e
                (Decoded (JObj [(''action'', JStr ''delete''), (''clip_key'', JStr ck)])) w
              = (Inr ok_response,
                 \<lparr>objects = filter (\<lambda>(k, ob). k \<noteq> ck) (objects w),
                  calls = calls w @ [HeadObject (BUCKET e) (thumb_key ck),
                                     DeleteObjects (BUCKET e) [ck]]\<rparr>))"
proof -
  obtain w1 where h: "head_object e (thumb_key ck) w = (Inl x, w1)"
    using probe(1) by (cases "head_object e (thumb_key ck) w") auto
  then have w1: "w1 = logged (HeadObject (BUCKET e) (thumb_key ck)) w"
    by (rule head_object_calls)
  have dc: "delete_clip e ck w = delete_objects e [ck] w1"
    using h probe(2) by (simp add: delete_clip_def)
  have ne: "ck \<noteq> []" using valid(1) by (rule startswith_nonempty)
  have m: "manage_handler e
             (Decoded (JObj [(''action'', JStr ''delete''), (''clip_key'', JStr ck)])) w
           = (case delete_objects e [ck] w1 of
                (Inl y, w2) \<Rightarrow> if is_ClientError y then (Inr (error_response 500 (str_exn y)), w2)
                                else (Inl y, w2)
              | (Inr u, w2) \<Rightarrow> (Inr ok_response, w2))"
    using valid ne dc by (simp add: manage_handler_def run_action_def split: prod.splits sum.splits)
  show ?thesis
    unfolding m w1
    by (cases "fault e (DeleteObjects (BUCKET e) [ck])")
       (auto simp: delete_objects_def logged_def Let_def)
qed


theorem delete_without_thumbnail_witness:
  "startswith ''clips/cam2_20260222_080000.avi'' ''clips/''
   \<and> endswith ''clips/cam2_20260222_080000.avi'' ''.avi''
   \<and> fst (head_object example_env (thumb_key ''clips/cam2_20260222_080000.avi'') example_world)
       = Inl (ClientError ''Not Found'')
   \<and> manage_handler example_env
         (Decoded (JObj [(''action'', JStr ''delete''),
                         (''clip_key'', JStr ''clips/cam2_20260222_080000.avi'')]))
         example_world
       = (Inr ok_response,
          \<lparr>objects = filter (\<lambda>(k, ob). k \<noteq> ''clips/cam2_20260222_080000.avi'')
                       (objects example_world),
           calls = [HeadObject ''cam-bucket'' ''thumbs/cam2_20260222_080000_thumb.jpg'',
                    DeleteObjects ''cam-bucket'' [''clips/cam2_20260222_080000.avi'']]\<rparr>)"
proof -
  have v1: "startswith ''clips/cam2_20260222_080000.avi'' ''clips/''"
    by (simp add: startswith_def)
  have v2: "endswith ''clips/cam2_20260222_080000.avi'' ''.avi''"
    by (simp add: endswith_def)
  have tk: "thumb_key ''clips/cam2_20260222_080000.avi'' = ''thumbs/cam2_20260222_080000_thumb.jpg''"
    by (simp add: thumb_key_def slice_from_to_end_def)
  have p: "fst (head_object example_env (thumb_key ''clips/cam2_20260222_080000.avi'')
                  example_world) = Inl (ClientError ''Not Found'')"
    by (simp add: tk head_object_def example_env_def example_world_def)
  have f: "fault example_env (DeleteObjects (BUCKET example_env) [''clips/cam2_20260222_080000.avi'']) = None"
    by (simp add: example_env_def)
  from delete_without_thumbnail [OF v1 v2 p, of] f
  show ?thesis using v1 v2 p by (simp add: tk example_env_def example_world_def)
qed

lemma map_of_retag:
  "k' \<noteq> key \<Longrightarrow>
   map_of (map (\<lambda>(k, ob). if k = key then (k, f ob) else (k, ob)) xs) k' = map_of xs k'"
  by (induction xs) auto

lemma put_object_tagging_effect:
  assumes "put_object_tagging e key tags w = (r, w1)"
  shows "calls w1 = calls w @ [PutObjectTagging (BUCKET e) key tags]"
    and "k' \<noteq> key \<Longrightarrow> map_of (objects w1) k' = map_of (objects w) k'"
  using assms
  by (auto simp: put_object_tagging_def logged_def Let_def map_of_retag split: option.splits)

text \<open>
  C9. On a valid clip key, \<open>keep\<close> and \<open>unkeep\<close> make one call: the tag write on the clip.
  No tag is written on the paired thumbnail, whose entry in the bucket stays as it was. The
  comment in notify.py says that this handler tags the thumbnail.
\<close>

theorem keep_writes_clip_tag_only:
  assumes valid: "startswith ck ''clips/''" "endswith ck ''.avi''"
    and act: "(a, v) = (''keep'', ''true'') \<or> (a, v) = (''unkeep'', ''false'')"
  shows "calls (snd (manage_handler e
                  (Decoded (JObj [(''action'', JStr a), (''clip_key'', JStr ck)])) w))
           = calls w @ [PutObjectTagging (BUCKET e) ck [(''keep'', v)]]
         \<and> map_of (objects (snd (manage_handler e
                  (Decoded (JObj [(''action'', JStr a), (''clip_key'', JStr ck)])) w)))
               (thumb_key ck)
           = map_of (objects w) (thumb_key ck)"
proof -
  obtain r w1 where p: "put_object_tagging e ck [(''keep'', v)] w = (r, w1)"
    by (cases "put_object_tagging e ck [(''keep'', v)] w")
  have ne: "ck \<noteq> []" using valid(1) by (rule startswith_nonempty)
  have ra: "run_action e (JStr a) ck w = Some (r, w1)"
    using act p by (auto simp: run_action_def set_keep_tag_def)
  have "snd (manage_handler e
               (Decoded (JObj [(''action'', JStr a), (''clip_key'', JStr ck)])) w) = w1"
    using valid ne ra act by (cases r) (auto simp: manage_handler_def)
  then show ?thesis
    using put_object_tagging_effect [OF p] thumb_key_neq [OF valid(1)] by simp
qed

theorem keep_writes_clip_tag_only_witness:
  "startswith ''clips/cam1_20260221_120000.avi'' ''clips/''
   \<and> endswith ''clips/cam1_20260221_120000.avi'' ''.avi''
   \<and> calls (snd (manage_handler example_env
                  (Decoded (JObj [(''action'', JStr ''keep''),
                                  (''clip_key'', JStr ''clips/cam1_20260221_120000.avi'')]))
                  example_world))
       = [PutObjectTagging ''cam-bucket'' ''clips/cam1_20260221_120000.avi''
            [(''keep'', ''true'')]]
   \<and> map_of (objects (snd (manage_handler example_env
                  (Decoded (JObj [(''action'', JStr ''keep''),
                                  (''clip_key'', JStr ''clips/cam1_20260221_120000.avi'')]))
                  example_world)))
         ''thumbs/cam1_20260221_120000_thumb.jpg''
       = Some \<lparr>obj_size = 20480, obj_last_modified = ''2026-02-21T12:00:43+00:00'',
               obj_tags = []\<rparr>"
proof -
  have v1: "startswith ''clips/cam1_20260221_120000.avi'' ''clips/''"
    by (simp add: startswith_def)
  have v2: "endswith ''clips/cam1_20260221_120000.avi'' ''.avi''"
    by (simp add: endswith_def)
  have tk: "thumb_key ''clips/cam1_20260221_120000.avi'' = ''thumbs/cam1_20260221_120000_thumb.jpg''"
    by (simp add: thumb_key_def slice_from_to_end_def)
  from keep_writes_clip_tag_only [OF v1 v2, of "''keep''" "''true''" example_env example_world]
  show ?thesis using v1 v2 by (simp add: tk example_env_def example_world_def)
qed

text \<open>
  What the validation of the request does when the body is absent, is no JSON, or is a JSON
  object whose \<open>clip_key\<close> is a string (or is missing or false): every request that is
  not one of the three actions on a key of the shape \<open>clips/*.avi\<close> gets a 400 response
  with a message, and the world is as before.
\<close>

lemma manage_validation_400:
  assumes shape: "ev = NoBody \<or> ev = Undecodable \<or> ev = Decoded (JObj kvs)"
    and typed: "\<And>v. map_of kvs ''clip_key'' = Some v \<Longrightarrow> truthy v \<Longrightarrow> \<exists>s. v = JStr s"
    and bad: "\<not> (\<exists>a ck. ev = Decoded (JObj kvs) \<and> map_of kvs ''action'' = Some (JStr a)
                 \<and> (a = ''keep'' \<or> a = ''unkeep'' \<or> a = ''delete'')
                 \<and> map_of kvs ''clip_key'' = Some (JStr ck)
                 \<and> startswith ck ''clips/'' \<and> endswith ck ''.avi'')"
  shows "\<exists>msg. manage_handler e ev w = (Inr (error_response 400 msg), w)"
proof -
  consider "ev = NoBody" | "ev = Undecodable" | "ev = Decoded (JObj kvs)" using shape by blast
  then show ?thesis
  proof cases
    case 1 then show ?thesis by (auto simp: manage_handler_def)
  next
    case 2 then show ?thesis by (auto simp: manage_handler_def)
  next
    case 3
    show ?thesis
    proof (cases "map_of kvs ''clip_key''")
      case None
      then show ?thesis using 3 by (auto simp: manage_handler_def split: option.splits)
    next
      case (Some v)
      show ?thesis
      proof (cases "truthy v")
        case False
        then show ?thesis using 3 Some by (auto simp: manage_handler_def split: option.splits)
      next
        case True
        then obtain s where s: "v = JStr s" using typed Some by blast
        define act where "act = (case map_of kvs ''action'' of None \<Rightarrow> JNull | Some u \<Rightarrow> u)"
        have ga: "body_get (JObj kvs) ''action'' = Inr act"
          by (simp add: act_def split: option.splits)
        have gk: "body_get (JObj kvs) ''clip_key'' = Inr (JStr s)"
          using Some s by simp
        have ne: "s \<noteq> []" using True s by simp
        show ?thesis
        proof (cases "truthy act \<and> startswith s ''clips/'' \<and> endswith s ''.avi''")
          case False
          then show ?thesis using 3 ga gk ne
            by (auto simp: manage_handler_def)
        next
          case ok: True
          have "act \<noteq> JStr ''keep''" "act \<noteq> JStr ''unkeep''" "act \<noteq> JStr ''delete''"
            using bad 3 Some s ok by (auto simp: act_def split: option.splits)
          then have "run_action e act s w = None" by (simp add: run_action_def)
          then show ?thesis using 3 ga gk ne ok
            by (simp add: manage_handler_def) blast
        qed
      qed
    qed
  qed
qed

theorem manage_validation_400_witness:
  "manage_handler example_env
     (Decoded (JObj [(''action'', JStr ''keep''), (''clip_key'', JStr ''notes.txt'')]))
     example_world
   = (Inr \<lparr>statusCode = 400, headers = [],
           body = JObj [(''error'', JStr ''clip_key must be clips/*.avi'')]\<rparr>, example_world)"
proof -
  have "\<exists>msg. manage_handler example_env
                (Decoded (JObj [(''action'', JStr ''keep''), (''clip_key'', JStr ''notes.txt'')]))
                example_world
              = (Inr (error_response 400 msg), example_world)"
    by (rule manage_validation_400
          [of _ "[(''action'', JStr ''keep''), (''clip_key'', JStr ''notes.txt'')]"])
       (auto simp: startswith_def split: if_splits)
  moreover have "manage_handler example_env
                (Decoded (JObj [(''action'', JStr ''keep''), (''clip_key'', JStr ''notes.txt'')]))
                example_world
              = (Inr (error_response 400 ''clip_key must be clips/*.avi''), example_world)"
    by (simp add: manage_handler_def startswith_def)
  ultimately show ?thesis by (simp add: error_response_def)
qed

text \<open>
  C2. A request whose \<open>clip_key\<close> is a JSON value that is true and not a string (here the
  number 123) fails validation, and gets no 400 response: \<open>clip_key.startswith\<close> raises
  \<open>AttributeError\<close>, which neither \<open>except\<close> clause of the handler catches. The same holds
  for a body that is JSON and not an object (\<open>null\<close>, a list, a number, a string), where
  \<open>body.get\<close> raises it. No call is made in either case.
\<close>

theorem manage_non_string_clip_key:
  "manage_handler e
     (Decoded (JObj [(''action'', JStr ''keep''), (''clip_key'', JNum 123)])) w
   = (Inl (AttributeError ''object has no attribute 'startswith' ''), w)"
  by (simp add: manage_handler_def)

theorem manage_non_string_clip_key_witness:
  "manage_handler example_env
     (Decoded (JObj [(''action'', JStr ''keep''), (''clip_key'', JNum 123)])) example_world
   = (Inl (AttributeError ''object has no attribute 'startswith' ''), example_world)"
  using manage_non_string_clip_key [of example_env example_world] by simp

lemma manage_non_object_body:
  assumes "\<forall>kvs. v \<noteq> JObj kvs"
  shows "manage_handler e (Decoded v) w
         = (Inl (AttributeError ''object has no attribute 'get' ''), w)"
  using assms by (cases v) (simp_all add: manage_handler_def)

section \<open>The timestamp of a basename\<close>

lemma of_char_ascii_digit: "(n::nat) \<le> 9 \<Longrightarrow> (of_char (char_of (48 + n) :: char) :: nat) = 48 + n"
  by simp

lemma decimal_ascii_digit: "n \<le> 9 \<Longrightarrow> decimal e [char_of (48 + n)] = Some n"
  by (simp add: decimal_def)

lemma ascii_digit_in_digit:
  "n \<le> 9 \<Longrightarrow> ascii_digit_in [char_of (48 + n)] lo hi = (lo \<le> n \<and> n \<le> hi)"
  by (simp add: ascii_digit_in_def)

lemma ascii_digit_no_continuation: "(n::nat) \<le> 9 \<Longrightarrow> \<not> is_continuation (char_of (48 + n))"
  by (simp add: is_continuation_def)

lemma utf8_chars_one_byte:
  "\<forall>c \<in> set s. \<not> is_continuation c \<Longrightarrow> utf8_chars s = map (\<lambda>c. [c]) s"
proof (induction s)
  case Nil
  then show ?case by simp
next
  case (Cons c s)
  then show ?case by (cases s) auto
qed

lemma utf8_chars_append:
  "\<not> is_continuation c \<Longrightarrow> utf8_chars (xs @ c # ys) = utf8_chars xs @ utf8_chars (c # ys)"
proof (induction xs rule: utf8_chars.induct)
  case 1
  then show ?case by simp
next
  case (2 b bs)
  show ?case
  proof (cases "\<forall>x \<in> set bs. is_continuation x")
    case True
    then have t: "takeWhile is_continuation (bs @ c # ys) = bs"
      and d: "dropWhile is_continuation (bs @ c # ys) = c # ys"
      using 2(2) by (simp_all add: takeWhile_append2 dropWhile_append2)
    have t': "takeWhile is_continuation bs = bs" and d': "dropWhile is_continuation bs = []"
      using True by simp_all
    show ?thesis by (simp only: append_Cons utf8_chars.simps t d t' d') simp
  next
    case False
    then obtain x where x: "x \<in> set bs" "\<not> is_continuation x" by blast
    have t: "takeWhile is_continuation (bs @ c # ys) = takeWhile is_continuation bs"
      using x by (rule takeWhile_append1)
    have d: "dropWhile is_continuation (bs @ c # ys) = dropWhile is_continuation bs @ c # ys"
      using x by (rule dropWhile_append1)
    show ?thesis using 2 by (simp only: append_Cons utf8_chars.simps t d) simp
  qed
qed

lemma pad2_value: "(a::nat) \<le> 9 \<Longrightarrow> (b::nat) \<le> 9 \<Longrightarrow> pad2 (10 * a + b) = [char_of (48 + a), char_of (48 + b)]"
  by (simp add: pad2_def digit_char_def)

lemma digit_char_mod: "digit_char (10 * a + b) = digit_char b"
  by (simp add: digit_char_def)

lemma digit_char_digit: "n \<le> 9 \<Longrightarrow> digit_char n = char_of (48 + n)"
  by (simp add: digit_char_def)

lemma pad4_value:
  assumes "a \<le> 9" "b \<le> 9" "c \<le> 9" "d \<le> 9"
  shows "pad4 (1000 * a + 100 * b + 10 * c + d)
         = [char_of (48 + a), char_of (48 + b), char_of (48 + c), char_of (48 + d)]"
proof -
  have n: "1000 * a + 100 * b + 10 * c + d = 10 * (10 * (10 * a + b) + c) + d" by simp
  have d1: "(10 * (10 * (10 * a + b) + c) + d) div 10 = 10 * (10 * a + b) + c" using assms by simp
  have d2: "(10 * (10 * (10 * a + b) + c) + d) div 100 = 10 * a + b" using assms by simp
  have d3: "(10 * (10 * (10 * a + b) + c) + d) div 1000 = a" using assms by simp
  show ?thesis
    unfolding pad4_def n d1 d2 d3 digit_char_mod
    using assms by (simp add: digit_char_digit)
qed


lemma ascii_digit_not_newline: "(n::nat) \<le> 9 \<Longrightarrow> char_of (48 + n) \<noteq> CHR 0x0A"
proof
  assume n: "n \<le> 9" and eq: "char_of (48 + n) = CHR 0x0A"
  have "(of_char (char_of (48 + n) :: char) :: nat) = of_char (CHR 0x0A)" using eq by simp
  then show False using n by simp
qed

lemma search_stamp_match:
  fixes ymd hms :: "nat list"
  assumes dig: "\<forall>n \<in> set (ymd @ hms). n \<le> 9"
    and len: "length ymd = 8" "length hms = 6"
    and nl: "nl = [] \<or> nl = [CHR 0x0A]"
  shows "search_stamp e (pre @ ''_'' @ map (\<lambda>n. char_of (48 + n)) ymd @ ''_''
                           @ map (\<lambda>n. char_of (48 + n)) hms @ nl)
         = Some (map (\<lambda>n. [char_of (48 + n)]) ymd, map (\<lambda>n. [char_of (48 + n)]) hms)"
proof -
  define g1 where "g1 = map (\<lambda>n. [char_of (48 + n) :: char]) ymd"
  define g2 where "g2 = map (\<lambda>n. [char_of (48 + n) :: char]) hms"
  define u where "u = [''_''] @ g1 @ [''_''] @ g2"
  define rest where "rest = map (\<lambda>n. char_of (48 + n)) ymd @ ''_''
                           @ map (\<lambda>n. char_of (48 + n)) hms @ nl"
  have nc: "\<forall>c \<in> set (CHR ''_'' # rest). \<not> is_continuation c"
    using dig nl ascii_digit_no_continuation
    by (auto simp: rest_def) (simp_all add: is_continuation_def)
  have "utf8_chars (pre @ CHR ''_'' # rest) = utf8_chars pre @ utf8_chars (CHR ''_'' # rest)"
    by (rule utf8_chars_append) (simp add: is_continuation_def)
  also have "utf8_chars (CHR ''_'' # rest) = map (\<lambda>c. [c]) (CHR ''_'' # rest)"
    using nc by (rule utf8_chars_one_byte)
  also have "\<dots> = u @ map (\<lambda>c. [c]) nl"
    by (simp add: rest_def u_def g1_def g2_def comp_def)
  finally have cs: "utf8_chars (pre @ ''_'' @ map (\<lambda>n. char_of (48 + n)) ymd @ ''_''
                           @ map (\<lambda>n. char_of (48 + n)) hms @ nl)
                    = utf8_chars pre @ u @ map (\<lambda>c. [c]) nl"
    by (simp add: rest_def)
  have lu: "length u = 16" using len by (simp add: u_def g1_def g2_def)
  have g2ne: "g2 \<noteq> []" using len by (auto simp: g2_def)
  have dg1: "list_all (\<lambda>ch. decimal e ch \<noteq> None) g1"
    and dg2: "list_all (\<lambda>ch. decimal e ch \<noteq> None) g2"
    using dig by (auto simp: g1_def g2_def list_all_iff decimal_ascii_digit)
  have "\<forall>ch \<in> set g2. ch \<noteq> [CHR 0x0A]"
  proof
    fix ch assume "ch \<in> set g2"
    then obtain n where n: "n \<in> set hms" and ch: "ch = [char_of (48 + n)]"
      by (auto simp: g2_def)
    have "n \<le> 9" using dig n by simp
    then have "char_of (48 + n) \<noteq> CHR 0x0A" by (rule ascii_digit_not_newline)
    then show "ch \<noteq> [CHR 0x0A]" unfolding ch by (simp only: list.inject) simp
  qed
  moreover have "last g2 \<in> set g2" using g2ne by simp
  ultimately have lg: "last g2 \<noteq> [CHR 0x0A]" by blast
  have lastu: "last (utf8_chars pre @ u) = last g2" using g2ne by (simp add: u_def)
  have s: "(if utf8_chars pre @ u @ map (\<lambda>c. [c]) nl \<noteq> []
               \<and> last (utf8_chars pre @ u @ map (\<lambda>c. [c]) nl) = [CHR 0x0A]
            then butlast (utf8_chars pre @ u @ map (\<lambda>c. [c]) nl)
            else utf8_chars pre @ u @ map (\<lambda>c. [c]) nl) = utf8_chars pre @ u"
  proof (cases "nl = []")
    case True
    then show ?thesis using lastu lg by simp
  next
    case False
    then have n: "nl = [CHR 0x0A]" using nl by simp
    have "butlast (utf8_chars pre @ u @ [[CHR 0x0A]]) = utf8_chars pre @ u"
      by (simp add: butlast_append)
    then show ?thesis by (simp add: n)
  qed
  have t: "drop (length (utf8_chars pre @ u) - 16) (utf8_chars pre @ u) = u" using lu by simp
  have parts: "take 1 u = [''_'']" "take 8 (drop 1 u) = g1" "take 1 (drop 9 u) = [''_'']"
    "drop 10 u = g2"
    using len by (simp_all add: u_def g1_def g2_def)
  show ?thesis
    unfolding search_stamp_def Let_def cs s t parts
    using lu dg1 dg2 by (simp add: g1_def g2_def)
qed



lemma int_of_two_digits:
  "(a::nat) \<le> 9 \<Longrightarrow> (b::nat) \<le> 9 \<Longrightarrow>
     int_of_digits e [[char_of (48 + a)], [char_of (48 + b)]] = 10 * a + b"
  by (simp add: int_of_digits_def decimal_ascii_digit)

lemma int_of_four_digits:
  "(a::nat) \<le> 9 \<Longrightarrow> (b::nat) \<le> 9 \<Longrightarrow> c \<le> 9 \<Longrightarrow> d \<le> 9 \<Longrightarrow>
     int_of_digits e [[char_of (48 + a)], [char_of (48 + b)], [char_of (48 + c)], [char_of (48 + d)]]
       = 1000 * a + 100 * b + 10 * c + d"
  by (simp add: int_of_digits_def decimal_ascii_digit)

lemma match_Y_digits:
  "(a::nat) \<le> 9 \<Longrightarrow> (b::nat) \<le> 9 \<Longrightarrow> (c::nat) \<le> 9 \<Longrightarrow> (d::nat) \<le> 9 \<Longrightarrow>
     match_Y e [[char_of (48 + a)], [char_of (48 + b)], [char_of (48 + c)], [char_of (48 + d)]]"
  by (simp add: decimal_ascii_digit)

lemma match_m_digits:
  "(a::nat) \<le> 9 \<Longrightarrow> (b::nat) \<le> 9 \<Longrightarrow>
     match_m [[char_of (48 + a)], [char_of (48 + b)]] = (1 \<le> 10 * a + b \<and> 10 * a + b \<le> 12)"
  by (simp add: ascii_digit_in_digit) arith

lemma ascii_digit_not_space: "(n::nat) \<le> 9 \<Longrightarrow> char_of (48 + n) \<noteq> CHR '' ''"
proof
  assume n: "n \<le> 9" and eq: "char_of (48 + n) = CHR '' ''"
  have "(of_char (char_of (48 + n) :: char) :: nat) = of_char (CHR '' '')" using eq by simp
  then show False using n by simp
qed

lemma match_d_digits:
  "(a::nat) \<le> 9 \<Longrightarrow> (b::nat) \<le> 9 \<Longrightarrow>
     match_d e [[char_of (48 + a)], [char_of (48 + b)]] = (1 \<le> 10 * a + b \<and> 10 * a + b \<le> 31)"
  by (simp add: ascii_digit_in_digit decimal_ascii_digit ascii_digit_not_space) arith

lemma match_H_digits:
  "(a::nat) \<le> 9 \<Longrightarrow> (b::nat) \<le> 9 \<Longrightarrow>
     match_H e [[char_of (48 + a)], [char_of (48 + b)]] = (10 * a + b \<le> 23)"
  by (simp add: ascii_digit_in_digit decimal_ascii_digit) arith

lemma match_M_digits:
  "(a::nat) \<le> 9 \<Longrightarrow> (b::nat) \<le> 9 \<Longrightarrow>
     match_M e [[char_of (48 + a)], [char_of (48 + b)]] = (10 * a + b \<le> 59)"
  by (simp add: ascii_digit_in_digit decimal_ascii_digit) arith

lemma match_S_digits:
  "(a::nat) \<le> 9 \<Longrightarrow> (b::nat) \<le> 9 \<Longrightarrow>
     match_S e [[char_of (48 + a)], [char_of (48 + b)]] = (10 * a + b \<le> 61)"
  by (simp add: ascii_digit_in_digit decimal_ascii_digit) arith

lemma days_in_month_le: "days_in_month y m \<le> 31"
  by (simp add: days_in_month_def)

lemma strptime_ascii:
  fixes y1 y2 y3 y4 m1 m2 d1 d2 h1 h2 n1 n2 s1 s2 :: nat
  assumes dig: "\<forall>n \<in> set [y1, y2, y3, y4, m1, m2, d1, d2, h1, h2, n1, n2, s1, s2]. n \<le> 9"
  shows "strptime e (map (\<lambda>n. [char_of (48 + n)])
                       [y1, y2, y3, y4, m1, m2, d1, d2, h1, h2, n1, n2, s1, s2])
         = (if 1 \<le> 1000 * y1 + 100 * y2 + 10 * y3 + y4
               \<and> 1 \<le> 10 * m1 + m2 \<and> 10 * m1 + m2 \<le> 12
               \<and> 1 \<le> 10 * d1 + d2
               \<and> 10 * d1 + d2 \<le> days_in_month (1000 * y1 + 100 * y2 + 10 * y3 + y4) (10 * m1 + m2)
               \<and> 10 * h1 + h2 \<le> 23 \<and> 10 * n1 + n2 \<le> 59 \<and> 10 * s1 + s2 \<le> 59
            then Some \<lparr>year = 1000 * y1 + 100 * y2 + 10 * y3 + y4, month = 10 * m1 + m2,
                       day = 10 * d1 + d2, hour = 10 * h1 + h2, minute = 10 * n1 + n2,
                       second = 10 * s1 + s2\<rparr>
            else None)"
proof -
  have b: "y1 \<le> 9" "y2 \<le> 9" "y3 \<le> 9" "y4 \<le> 9" "m1 \<le> 9" "m2 \<le> 9" "d1 \<le> 9" "d2 \<le> 9"
    "h1 \<le> 9" "h2 \<le> 9" "n1 \<le> 9" "n2 \<le> 9" "s1 \<le> 9" "s2 \<le> 9"
    using dig by simp_all
  have yb: "1000 * y1 + 100 * y2 + 10 * y3 + y4 \<le> 9999" using b by simp
  note dm = days_in_month_le [of "1000 * y1 + 100 * y2 + 10 * y3 + y4" "10 * m1 + m2"]
  show ?thesis
    unfolding strptime_def
    using yb dm
    by (simp add: Let_def int_of_two_digits int_of_four_digits match_Y_digits match_m_digits
          match_d_digits match_H_digits match_M_digits match_S_digits b
          del: match_Y.simps match_m.simps match_d.simps match_H.simps match_M.simps
            match_S.simps)
qed



lemma char_of_digits:
  "char_of (48 :: nat) = CHR ''0''" "char_of (49 :: nat) = CHR ''1''"
  "char_of (50 :: nat) = CHR ''2''" "char_of (51 :: nat) = CHR ''3''"
  "char_of (52 :: nat) = CHR ''4''" "char_of (53 :: nat) = CHR ''5''"
  "char_of (54 :: nat) = CHR ''6''" "char_of (55 :: nat) = CHR ''7''"
  "char_of (56 :: nat) = CHR ''8''" "char_of (57 :: nat) = CHR ''9''"
  by code_simp+

lemma case_if_Some:
  "(case (if c then Some d else None) of None \<Rightarrow> None | Some dt \<Rightarrow> Some (f dt))
   = (if c then Some (f d) else None)"
  by simp

text \<open>
  A basename that ends in \<open>_\<close>, eight ASCII digits, \<open>_\<close> and six ASCII digits, or in one
  newline after them: the result is decided by the numbers that the digits spell.
\<close>

lemma parse_timestamp_ascii:
  fixes y1 y2 y3 y4 m1 m2 d1 d2 h1 h2 n1 n2 s1 s2 :: nat
  assumes dig: "\<forall>n \<in> set [y1, y2, y3, y4, m1, m2, d1, d2, h1, h2, n1, n2, s1, s2]. n \<le> 9"
    and nl: "nl = [] \<or> nl = [CHR 0x0A]"
  shows "parse_timestamp e
       (pre @ ''_'' @ map (\<lambda>n. char_of (48 + n)) [y1, y2, y3, y4, m1, m2, d1, d2]
            @ ''_'' @ map (\<lambda>n. char_of (48 + n)) [h1, h2, n1, n2, s1, s2] @ nl)
     = (let Y = 1000 * y1 + 100 * y2 + 10 * y3 + y4; M = 10 * m1 + m2; D = 10 * d1 + d2;
            H = 10 * h1 + h2; Mi = 10 * n1 + n2; S = 10 * s1 + s2
        in
        if 1 \<le> Y \<and> 1 \<le> M \<and> M \<le> 12 \<and> 1 \<le> D
           \<and> D \<le> (if M = 2
                    then (if Y mod 4 = 0 \<and> (Y mod 100 \<noteq> 0 \<or> Y mod 400 = 0) then 29 else 28)
                    else if M = 4 \<or> M = 6 \<or> M = 9 \<or> M = 11 then 30 else 31)
           \<and> H \<le> 23 \<and> Mi \<le> 59 \<and> S \<le> 59
        then Some (map (\<lambda>n. char_of (48 + n)) [y1, y2, y3, y4] @ ''-''
                   @ map (\<lambda>n. char_of (48 + n)) [m1, m2] @ ''-''
                   @ map (\<lambda>n. char_of (48 + n)) [d1, d2] @ ''T''
                   @ map (\<lambda>n. char_of (48 + n)) [h1, h2] @ '':''
                   @ map (\<lambda>n. char_of (48 + n)) [n1, n2] @ '':''
                   @ map (\<lambda>n. char_of (48 + n)) [s1, s2] @ ''+00:00'')
        else None)"
proof -
  have b: "y1 \<le> 9" "y2 \<le> 9" "y3 \<le> 9" "y4 \<le> 9" "m1 \<le> 9" "m2 \<le> 9" "d1 \<le> 9" "d2 \<le> 9"
    "h1 \<le> 9" "h2 \<le> 9" "n1 \<le> 9" "n2 \<le> 9" "s1 \<le> 9" "s2 \<le> 9"
    using dig by simp_all
  have d2: "\<forall>n \<in> set ([y1, y2, y3, y4, m1, m2, d1, d2] @ [h1, h2, n1, n2, s1, s2]). n \<le> 9"
    using dig by simp
  have m: "search_stamp e
             (pre @ ''_'' @ map (\<lambda>n. char_of (48 + n)) [y1, y2, y3, y4, m1, m2, d1, d2]
                  @ ''_'' @ map (\<lambda>n. char_of (48 + n)) [h1, h2, n1, n2, s1, s2] @ nl)
           = Some (map (\<lambda>n. [char_of (48 + n)]) [y1, y2, y3, y4, m1, m2, d1, d2],
                   map (\<lambda>n. [char_of (48 + n)]) [h1, h2, n1, n2, s1, s2])"
    by (rule search_stamp_match [OF d2 _ _ nl]) simp_all
  have st: "strptime e (map (\<lambda>n. [char_of (48 + n)]) [y1, y2, y3, y4, m1, m2, d1, d2]
                        @ map (\<lambda>n. [char_of (48 + n)]) [h1, h2, n1, n2, s1, s2])
            = strptime e (map (\<lambda>n. [char_of (48 + n)])
                            [y1, y2, y3, y4, m1, m2, d1, d2, h1, h2, n1, n2, s1, s2])"
    by simp
  have iso: "isoformat_utc \<lparr>year = 1000 * y1 + 100 * y2 + 10 * y3 + y4, month = 10 * m1 + m2,
                     day = 10 * d1 + d2, hour = 10 * h1 + h2, minute = 10 * n1 + n2,
                     second = 10 * s1 + s2\<rparr>
             = map (\<lambda>n. char_of (48 + n)) [y1, y2, y3, y4] @ ''-''
                   @ map (\<lambda>n. char_of (48 + n)) [m1, m2] @ ''-''
                   @ map (\<lambda>n. char_of (48 + n)) [d1, d2] @ ''T''
                   @ map (\<lambda>n. char_of (48 + n)) [h1, h2] @ '':''
                   @ map (\<lambda>n. char_of (48 + n)) [n1, n2] @ '':''
                   @ map (\<lambda>n. char_of (48 + n)) [s1, s2] @ ''+00:00''"
    using b by (simp add: isoformat_utc_def pad2_value pad4_value)
  show ?thesis
    unfolding parse_timestamp_def m prod.case option.case st strptime_ascii [OF dig]
      days_in_month_def is_leap_def Let_def
    by (simp only: case_if_Some iso)
qed


text \<open>
  The decimal digits of \<open>\d\<close> and of \<open>int()\<close> are those of Unicode: with the Arabic-Indic
  digit one (U+0661) for the last digit of the day the name is parsed as with \<open>1\<close>. The
  first digit of a day, a month, an hour, a minute and a second is an ASCII digit in the
  pattern that \<open>strptime\<close> builds, so that the day \<open>U+0662 U+0661\<close> is refused.
\<close>

lemma parse_timestamp_unicode_digit:
  "parse_timestamp example_env (''cam1_2026022'' @ [CHR 0xD9, CHR 0xA1] @ ''_120000'')
     = Some ''2026-02-21T12:00:00+00:00''"
  "parse_timestamp example_env
     (''cam1_202602'' @ [CHR 0xD9, CHR 0xA2, CHR 0xD9, CHR 0xA1] @ ''_120000'') = None"
  by code_simp+




section \<open>The Ingest Notifier\<close>

lemma split_ne: "split s c \<noteq> []"
  by (induction s) (auto split: list.splits)

lemmas notify_eval =
  notify_handler_def notify_record_def unquote_plus_def endswith_def
  generate_presigned_url_def send_email_def put_object_tagging_def logged_def
  ses_rejects_cam1_def tagging_times_out_def example_env_def example_world_def GET_EXPIRY_def Let_def
  alert_subject_def alert_body_def

text \<open>
  C1, as stated, fails. The email service rejects the alert about \<open>cam1\<close>; in a batch of
  the two clips the exception leaves the handler after the first record's email call, and
  no call is made for the second record, which the handler processes when it comes alone.
\<close>

theorem notify_email_failure_aborts_batch:
  "notify_handler ses_rejects_cam1
     (Some [''clips/cam1_20260221_120000.avi'', ''clips/cam2_20260222_080000.avi''])
     example_world
   = (Inl (ClientError ''MessageRejected''),
      example_world\<lparr>calls :=
        [GeneratePresignedUrl ''get_object'' ''cam-bucket'' ''clips/cam1_20260221_120000.avi''
           604800,
         SendEmail ''ops@example.org'' ''ops@example.org'' (alert_subject ''cam1'')
           (alert_body ''cam1'' ''cam1_20260221_120000.avi''
              ''https://cam-bucket/clips/cam1_20260221_120000.avi?get_object'')]\<rparr>)
   \<and> notify_handler ses_rejects_cam1 (Some [''clips/cam2_20260222_080000.avi'']) example_world
     = (Inr (),
        example_world\<lparr>calls :=
          [GeneratePresignedUrl ''get_object'' ''cam-bucket'' ''clips/cam2_20260222_080000.avi''
             604800,
           SendEmail ''ops@example.org'' ''ops@example.org'' (alert_subject ''cam2'')
             (alert_body ''cam2'' ''cam2_20260222_080000.avi''
                ''https://cam-bucket/clips/cam2_20260222_080000.avi?get_object''),
           PutObjectTagging ''cam-bucket'' ''clips/cam2_20260222_080000.avi''
             [(''keep'', ''false'')]],
         objects :=
           [(''clips/cam1_20260221_120000.avi'',
             \<lparr>obj_size = 9856614, obj_last_modified = ''2026-02-21T12:00:41+00:00'',
              obj_tags = [(''keep'', ''false'')]\<rparr>),
            (''clips/cam2_20260222_080000.avi'',
             \<lparr>obj_size = 1048576, obj_last_modified = ''2026-02-22T08:00:30+00:00'',
              obj_tags = [(''keep'', ''false'')]\<rparr>),
            (''thumbs/cam1_20260221_120000_thumb.jpg'',
             \<lparr>obj_size = 20480, obj_last_modified = ''2026-02-21T12:00:43+00:00'',
              obj_tags = []\<rparr>)]\<rparr>)"
  by (simp add: notify_eval)

lemma generate_presigned_url_calls:
  "generate_presigned_url e m k x w = (r, w1) \<Longrightarrow>
     calls w1 = calls w @ [GeneratePresignedUrl m (BUCKET e) k x]"
  by (auto simp: generate_presigned_url_def logged_def Let_def split: option.splits)

lemma send_email_calls:
  "send_email e s t su b w = (r, w1) \<Longrightarrow> calls w1 = calls w @ [SendEmail s t su b]"
  by (auto simp: send_email_def logged_def Let_def split: option.splits)

lemma put_object_tagging_calls:
  "put_object_tagging e k tags w = (r, w1) \<Longrightarrow>
     calls w1 = calls w @ [PutObjectTagging (BUCKET e) k tags]"
  by (auto simp: put_object_tagging_def logged_def Let_def split: option.splits)

lemma notify_record_calls_mono:
  "set (calls w) \<subseteq> set (calls (snd (notify_record e r w)))"
  by (auto simp: notify_record_def Let_def
           dest!: generate_presigned_url_calls send_email_calls put_object_tagging_calls
           split: prod.splits sum.splits)

lemma notify_records_calls_mono:
  "set (calls w) \<subseteq> set (calls (snd (notify_records e rs w)))"
proof (induction rs arbitrary: w)
  case Nil
  then show ?case by simp
next
  case (Cons r rs)
  obtain x w1 where n: "notify_record e r w = (x, w1)" by (cases "notify_record e r w")
  have m: "set (calls w) \<subseteq> set (calls w1)"
    using notify_record_calls_mono [of w e r] n by simp
  show ?case
  proof (cases x)
    case (Inl a)
    then show ?thesis using n m by simp
  next
    case (Inr b)
    then show ?thesis using n m Cons.IH [of w1] by auto
  qed
qed

text \<open>
  When signing and sending do not fail, a record never ends the loop, and a record whose key
  ends in \<open>.avi\<close> leaves its three calls in the log, whatever the tag write does.
\<close>

lemma notify_record_completes:
  assumes sign: "\<forall>m k x. fault e (GeneratePresignedUrl m (BUCKET e) k x) = None"
    and send: "\<forall>s t su b. fault e (SendEmail s t su b) = None"
  shows "fst (notify_record e r w) = Inr ()"
    and "endswith (unquote_plus r) ''.avi'' \<Longrightarrow>
           {GeneratePresignedUrl ''get_object'' (BUCKET e) (unquote_plus r) GET_EXPIRY,
            SendEmail (ALERT_EMAIL e) (ALERT_EMAIL e)
              (alert_subject (hd (split (last (split (unquote_plus r) (CHR ''/''))) (CHR ''_''))))
              (alert_body (hd (split (last (split (unquote_plus r) (CHR ''/''))) (CHR ''_'')))
                 (last (split (unquote_plus r) (CHR ''/'')))
                 (presigned e ''get_object'' (BUCKET e) (unquote_plus r) GET_EXPIRY)),
            PutObjectTagging (BUCKET e) (unquote_plus r) [(''keep'', ''false'')]}
           \<subseteq> set (calls (snd (notify_record e r w)))"
  using sign send
  by (auto simp: notify_record_def Let_def generate_presigned_url_def send_email_def logged_def
           dest!: put_object_tagging_calls split: prod.splits)

text \<open>
  C1, amended. When no signing and no sending fails, the handler returns normally and every
  record of the batch whose key ends in \<open>.avi\<close> has its signing, its email and its tag
  write in the log, whatever the tag writes do: an exception of a tag write is swallowed
  and ends neither the record's processing nor the batch.
\<close>

theorem notify_tag_failure_isolated:
  assumes sign: "\<forall>m k x. fault e (GeneratePresignedUrl m (BUCKET e) k x) = None"
    and send: "\<forall>s t su b. fault e (SendEmail s t su b) = None"
  shows "fst (notify_handler e (Some rs) w) = Inr ()
         \<and> (\<forall>r \<in> set rs. endswith (unquote_plus r) ''.avi'' \<longrightarrow>
              {GeneratePresignedUrl ''get_object'' (BUCKET e) (unquote_plus r) GET_EXPIRY,
               SendEmail (ALERT_EMAIL e) (ALERT_EMAIL e)
                 (alert_subject (hd (split (last (split (unquote_plus r) (CHR ''/''))) (CHR ''_''))))
                 (alert_body (hd (split (last (split (unquote_plus r) (CHR ''/''))) (CHR ''_'')))
                    (last (split (unquote_plus r) (CHR ''/'')))
                    (presigned e ''get_object'' (BUCKET e) (unquote_plus r) GET_EXPIRY)),
               PutObjectTagging (BUCKET e) (unquote_plus r) [(''keep'', ''false'')]}
              \<subseteq> set (calls (snd (notify_handler e (Some rs) w))))"
  unfolding notify_handler_def option.case
proof (induction rs arbitrary: w)
  case Nil
  then show ?case by simp
next
  case (Cons r rs)
  obtain w1 where n: "notify_record e r w = (Inr (), w1)"
    using notify_record_completes(1) [OF sign send, of r w]
    by (cases "notify_record e r w") auto
  have step: "notify_records e (r # rs) w = notify_records e rs w1" using n by simp
  have mono: "set (calls w1) \<subseteq> set (calls (snd (notify_records e rs w1)))"
    by (rule notify_records_calls_mono)
  have here: "endswith (unquote_plus r) ''.avi'' \<Longrightarrow>
              {GeneratePresignedUrl ''get_object'' (BUCKET e) (unquote_plus r) GET_EXPIRY,
               SendEmail (ALERT_EMAIL e) (ALERT_EMAIL e)
                 (alert_subject (hd (split (last (split (unquote_plus r) (CHR ''/''))) (CHR ''_''))))
                 (alert_body (hd (split (last (split (unquote_plus r) (CHR ''/''))) (CHR ''_'')))
                    (last (split (unquote_plus r) (CHR ''/'')))
                    (presigned e ''get_object'' (BUCKET e) (unquote_plus r) GET_EXPIRY)),
               PutObjectTagging (BUCKET e) (unquote_plus r) [(''keep'', ''false'')]}
              \<subseteq> set (calls w1)"
    using notify_record_completes(2) [OF sign send, of r w] n by simp
  show ?case
    unfolding step using Cons.IH [of w1] here mono by (simp only: set_simps ball_simps) blast
qed

theorem notify_tag_failure_isolated_witness:
  "(\<forall>m k x. fault tagging_times_out (GeneratePresignedUrl m (BUCKET tagging_times_out) k x) = None)
   \<and> (\<forall>s t su b. fault tagging_times_out (SendEmail s t su b) = None)
   \<and> fault tagging_times_out
         (PutObjectTagging ''cam-bucket'' ''clips/cam1_20260221_120000.avi'' [(''keep'', ''false'')])
       = Some (OtherError ''Read timed out'')
   \<and> endswith (unquote_plus ''clips/cam1_20260221_120000.avi'') ''.avi''
   \<and> endswith (unquote_plus ''clips/cam2_20260222_080000.avi'') ''.avi''
   \<and> fst (notify_handler tagging_times_out
              (Some [''clips/cam1_20260221_120000.avi'', ''thumbs/cam1_20260221_120000_thumb.jpg'',
                     ''clips/cam2_20260222_080000.avi''])
              example_world) = Inr ()
   \<and> PutObjectTagging ''cam-bucket'' ''clips/cam2_20260222_080000.avi'' [(''keep'', ''false'')]
       \<in> set (calls (snd (notify_handler tagging_times_out
              (Some [''clips/cam1_20260221_120000.avi'', ''thumbs/cam1_20260221_120000_thumb.jpg'',
                     ''clips/cam2_20260222_080000.avi''])
              example_world)))"
proof -
  have h1: "\<forall>m k x. fault tagging_times_out
              (GeneratePresignedUrl m (BUCKET tagging_times_out) k x) = None"
    by (simp add: tagging_times_out_def)
  have h2: "\<forall>s t su b. fault tagging_times_out (SendEmail s t su b) = None"
    by (simp add: tagging_times_out_def)
  have f: "fault tagging_times_out
         (PutObjectTagging ''cam-bucket'' ''clips/cam1_20260221_120000.avi'' [(''keep'', ''false'')])
       = Some (OtherError ''Read timed out'')"
    by (simp add: tagging_times_out_def)
  have e1: "unquote_plus ''clips/cam1_20260221_120000.avi'' = ''clips/cam1_20260221_120000.avi''"
    and e2: "unquote_plus ''clips/cam2_20260222_080000.avi'' = ''clips/cam2_20260222_080000.avi''"
    by (simp_all add: unquote_plus_def)
  have a1: "endswith ''clips/cam1_20260221_120000.avi'' ''.avi''"
    and a2: "endswith ''clips/cam2_20260222_080000.avi'' ''.avi''"
    by (simp_all add: endswith_def)
  have b: "BUCKET tagging_times_out = ''cam-bucket''"
    by (simp add: tagging_times_out_def example_env_def)
  note t = notify_tag_failure_isolated [OF h1 h2,
      of "[''clips/cam1_20260221_120000.avi'', ''thumbs/cam1_20260221_120000_thumb.jpg'',
           ''clips/cam2_20260222_080000.avi'']" example_world]
  from t have r: "fst (notify_handler tagging_times_out
              (Some [''clips/cam1_20260221_120000.avi'', ''thumbs/cam1_20260221_120000_thumb.jpg'',
                     ''clips/cam2_20260222_080000.avi''])
              example_world) = Inr ()" by blast
  have ae: "endswith (unquote_plus ''clips/cam2_20260222_080000.avi'') ''.avi''"
    using a2 by (simp only: e2)
  have mem: "''clips/cam2_20260222_080000.avi''
      \<in> set [''clips/cam1_20260221_120000.avi'', ''thumbs/cam1_20260221_120000_thumb.jpg'',
                ''clips/cam2_20260222_080000.avi'']" by simp
  from bspec [OF conjunct2 [OF t] mem] ae
  have "PutObjectTagging (BUCKET tagging_times_out)
          (unquote_plus ''clips/cam2_20260222_080000.avi'') [(''keep'', ''false'')]
       \<in> set (calls (snd (notify_handler tagging_times_out
              (Some [''clips/cam1_20260221_120000.avi'', ''thumbs/cam1_20260221_120000_thumb.jpg'',
                     ''clips/cam2_20260222_080000.avi''])
              example_world)))"
    by blast
  then have c: "PutObjectTagging ''cam-bucket'' ''clips/cam2_20260222_080000.avi''
         [(''keep'', ''false'')]
       \<in> set (calls (snd (notify_handler tagging_times_out
              (Some [''clips/cam1_20260221_120000.avi'', ''thumbs/cam1_20260221_120000_thumb.jpg'',
                     ''clips/cam2_20260222_080000.avi''])
              example_world)))"
    by (simp only: e2 b)
  show ?thesis using h1 h2 f a1 a2 r c by (simp only: e1 e2) blast
qed

text \<open>
  A batch of two records, one with a key that ends in \<open>.avi\<close> and one without: one email
  is sent and one object is tagged, with \<open>keep=false\<close>.
\<close>

theorem notify_batch_one_match:
  "notify_handler example_env
     (Some [''clips/cam2_20260222_080000.avi'', ''thumbs/cam2_20260222_080000_thumb.jpg''])
     example_world
   = (Inr (),
      \<lparr>objects =
         [(''clips/cam1_20260221_120000.avi'',
           \<lparr>obj_size = 9856614, obj_last_modified = ''2026-02-21T12:00:41+00:00'',
            obj_tags = [(''keep'', ''false'')]\<rparr>),
          (''clips/cam2_20260222_080000.avi'',
           \<lparr>obj_size = 1048576, obj_last_modified = ''2026-02-22T08:00:30+00:00'',
            obj_tags = [(''keep'', ''false'')]\<rparr>),
          (''thumbs/cam1_20260221_120000_thumb.jpg'',
           \<lparr>obj_size = 20480, obj_last_modified = ''2026-02-21T12:00:43+00:00'',
            obj_tags = []\<rparr>)],
       calls =
         [GeneratePresignedUrl ''get_object'' ''cam-bucket'' ''clips/cam2_20260222_080000.avi''
            604800,
          SendEmail ''ops@example.org'' ''ops@example.org'' (alert_subject ''cam2'')
            (alert_body ''cam2'' ''cam2_20260222_080000.avi''
               ''https://cam-bucket/clips/cam2_20260222_080000.avi?get_object''),
          PutObjectTagging ''cam-bucket'' ''clips/cam2_20260222_080000.avi''
            [(''keep'', ''false'')]]\<rparr>)"
  by (simp add: notify_eval)

section \<open>The Gallery Lister\<close>

lemma chunks_one_page: "xs \<noteq> [] \<Longrightarrow> length xs \<le> n \<Longrightarrow> chunks n xs = [xs]"
  by (subst chunks.simps, subst chunks.simps) (cases xs; auto)

lemma concat_chunks: "0 < n \<Longrightarrow> concat (chunks n xs) = xs"
proof (induction n xs rule: chunks.induct)
  case (1 n xs)
  show ?case
  proof (cases "xs = []")
    case True
    then show ?thesis by (subst chunks.simps) simp
  next
    case False
    then have "concat (chunks n (drop n xs)) = drop n xs" using 1 by simp
    then show ?thesis using False 1(2) by (subst chunks.simps) simp
  qed
qed


lemma generate_presigned_url_objects:
  "generate_presigned_url e m k x w = (r, w1) \<Longrightarrow> objects w1 = objects w"
  by (auto simp: generate_presigned_url_def logged_def Let_def split: option.splits)

lemma head_object_objects: "head_object e k w = (r, w1) \<Longrightarrow> objects w1 = objects w"
  by (auto simp: head_object_def logged_def Let_def split: option.splits)

lemma get_object_tagging_objects:
  "get_object_tagging e k w = (r, w1) \<Longrightarrow> objects w1 = objects w"
  by (auto simp: get_object_tagging_def logged_def Let_def split: option.splits)

lemma get_object_tagging_reads_objects:
  "objects w = objects w' \<Longrightarrow>
     fst (get_object_tagging e k w) = fst (get_object_tagging e k w')"
  by (auto simp: get_object_tagging_def Let_def split: option.splits)

lemma list_entry_clip_objects:
  assumes "list_entry_clip e obj w = (r, w1)"
  shows "objects w1 = objects w"
  using assms
  by (auto simp: list_entry_clip_def Let_def
           dest!: generate_presigned_url_objects head_object_objects get_object_tagging_objects
           split: if_splits prod.splits sum.splits)


lemma get_object_tagging_read:
  "get_object_tagging e k w = (r, w1) \<Longrightarrow> read_tags e (objects w) k = r \<and> objects w1 = objects w"
  by (auto simp: get_object_tagging_def read_tags_def logged_def Let_def split: option.splits)

lemma fst_get_object_tagging: "fst (get_object_tagging e k w) = read_tags e (objects w) k"
  using get_object_tagging_read [of e k w] by (cases "get_object_tagging e k w") auto

text \<open>What the loop body records for an entry, when it records one.\<close>

lemma list_entry_clip_Some:
  assumes "list_entry_clip e obj w = (Inr (Some c), w1)"
  shows "clip_key c = Key obj"
    and "endswith (Key obj) ''.avi''"
    and "timestamp c =
           (case parse_timestamp e (slice_from_to_end (Key obj) (length ''clips/'') (length ''.avi''))
            of Some t \<Rightarrow> t | None \<Rightarrow> LastModified obj)"
    and "kept c = (\<exists>tags. fst (get_object_tagging e (Key obj) w) = Inr tags
                     \<and> (''keep'', ''true'') \<in> set tags)"
proof -
  have ex: "\<And>tags. list_ex (\<lambda>(k, v). k = ''keep'' \<and> v = ''true'') tags
                 = ((''keep'', ''true'') \<in> set tags)"
    by (auto simp: list_ex_iff)
  show "clip_key c = Key obj" "endswith (Key obj) ''.avi''"
    "timestamp c =
           (case parse_timestamp e (slice_from_to_end (Key obj) (length ''clips/'') (length ''.avi''))
            of Some t \<Rightarrow> t | None \<Rightarrow> LastModified obj)"
    using assms
    by (auto simp: list_entry_clip_def Let_def split: if_splits prod.splits sum.splits)
  show "kept c = (\<exists>tags. fst (get_object_tagging e (Key obj) w) = Inr tags
                     \<and> (''keep'', ''true'') \<in> set tags)"
    unfolding fst_get_object_tagging
    using assms
    by (auto simp: list_entry_clip_def Let_def ex
             dest!: generate_presigned_url_objects head_object_objects get_object_tagging_read
             split: if_splits prod.splits sum.splits)
qed


text \<open>
  The two loops keep the bucket as it is, and each clip they add is the record of an entry
  of the listing, made in a world with the same bucket.
\<close>

lemma list_entries_inv:
  assumes "list_entries e objs clips w = (Inr out, w')"
    and "\<forall>c \<in> set clips. P c"
    and "\<forall>obj c w0 w1. objects w0 = objects w \<longrightarrow>
            list_entry_clip e obj w0 = (Inr (Some c), w1) \<longrightarrow> P c"
  shows "objects w' = objects w \<and> (\<forall>c \<in> set out. P c)"
  using assms
proof (induction objs arbitrary: clips w)
  case Nil
  then show ?case by auto
next
  case (Cons obj objs)
  obtain r w1 where b: "list_entry_clip e obj w = (r, w1)" by (cases "list_entry_clip e obj w")
  have o1: "objects w1 = objects w" using b by (rule list_entry_clip_objects)
  have step: "\<forall>obj c w0 w2. objects w0 = objects w1 \<longrightarrow>
            list_entry_clip e obj w0 = (Inr (Some c), w2) \<longrightarrow> P c"
    using Cons.prems(3) o1 by simp
  show ?case
  proof (cases r)
    case (Inl x)
    then show ?thesis using Cons.prems(1) b by simp
  next
    case (Inr oc)
    show ?thesis
    proof (cases oc)
      case None
      then have "list_entries e objs clips w1 = (Inr out, w')"
        using Cons.prems(1) b Inr by simp
      from Cons.IH [OF this Cons.prems(2) step] show ?thesis using o1 by simp
    next
      case (Some c)
      then have l: "list_entries e objs (clips @ [c]) w1 = (Inr out, w')"
        using Cons.prems(1) b Inr by simp
      have pc: "P c" using Cons.prems(3) b Inr Some by blast
      have "\<forall>c' \<in> set (clips @ [c]). P c'" using Cons.prems(2) pc by simp
      from Cons.IH [OF l this step] show ?thesis using o1 by simp
    qed
  qed
qed

lemma list_pages_inv:
  assumes "list_pages e ps clips w = (Inr out, w')"
    and "\<forall>c \<in> set clips. P c"
    and "\<forall>obj c w0 w1. objects w0 = objects w \<longrightarrow>
            list_entry_clip e obj w0 = (Inr (Some c), w1) \<longrightarrow> P c"
  shows "objects w' = objects w \<and> (\<forall>c \<in> set out. P c)"
  using assms
proof (induction ps arbitrary: clips w)
  case Nil
  then show ?case by auto
next
  case (Cons p ps)
  obtain r w1 where
    b: "list_entries e (case Contents p of None \<Rightarrow> [] | Some objs \<Rightarrow> objs) clips w = (r, w1)"
    by (cases "list_entries e (case Contents p of None \<Rightarrow> [] | Some objs \<Rightarrow> objs) clips w")
  show ?case
  proof (cases r)
    case (Inl x)
    then show ?thesis using Cons.prems(1) b by simp
  next
    case (Inr clips1)
    have i: "objects w1 = objects w \<and> (\<forall>c \<in> set clips1. P c)"
      using list_entries_inv [OF b [unfolded Inr] Cons.prems(2) Cons.prems(3)] .
    have step: "\<forall>obj c w0 w2. objects w0 = objects w1 \<longrightarrow>
            list_entry_clip e obj w0 = (Inr (Some c), w2) \<longrightarrow> P c"
      using Cons.prems(3) i by simp
    have l: "list_pages e ps clips1 w1 = (Inr out, w')" using Cons.prems(1) b Inr by simp
    from Cons.IH [OF l conjunct2 [OF i] step] show ?thesis using i by simp
  qed
qed

lemma paginate_objects: "paginate e pfx n w = (r, w1) \<Longrightarrow> objects w1 = objects w"
  by (auto simp: paginate_def logged_def Let_def split: option.splits)

lemma set_sort_newest_first: "set (sort_newest_first clips) = set clips"
  by (simp add: sort_newest_first_def)

lemma list_handler_inv:
  assumes "list_handler e w = (Inr resp, w')"
    and "\<forall>obj c w0 w1. objects w0 = objects w \<longrightarrow>
            list_entry_clip e obj w0 = (Inr (Some c), w1) \<longrightarrow> P c"
  shows "\<forall>c \<in> set (body resp). P c"
proof -
  obtain pages w1 where p: "paginate e ''clips/'' 1000 w = (Inr pages, w1)"
    using assms(1) by (auto simp: list_handler_def split: prod.splits sum.splits)
  have o1: "objects w1 = objects w" using p by (rule paginate_objects)
  obtain clips where l: "list_pages e pages [] w1 = (Inr clips, w')"
      and b: "body resp = sort_newest_first clips"
    using assms(1) p by (auto simp: list_handler_def split: prod.splits sum.splits)
  have st: "\<forall>obj c w0 w2. objects w0 = objects w1 \<longrightarrow>
            list_entry_clip e obj w0 = (Inr (Some c), w2) \<longrightarrow> P c"
    using assms(2) unfolding o1 .
  have em: "\<forall>c \<in> set []. P c" by simp
  have "\<forall>c \<in> set clips. P c"
    using list_pages_inv [OF l em st] by (rule conjunct2)
  then show ?thesis by (simp add: b set_sort_newest_first)
qed

lemma list_kept_iff:
  assumes "list_handler e w = (Inr resp, w')" and "c \<in> set (body resp)"
  shows "kept c = (\<exists>tags. fst (get_object_tagging e (clip_key c) w) = Inr tags
                     \<and> (''keep'', ''true'') \<in> set tags)"
proof -
  have "\<forall>c \<in> set (body resp).
          kept c = (\<exists>tags. fst (get_object_tagging e (clip_key c) w) = Inr tags
                      \<and> (''keep'', ''true'') \<in> set tags)"
  proof (rule list_handler_inv [OF assms(1)], intro allI impI)
    fix obj c w0 w1
    assume o: "objects w0 = objects w" and b: "list_entry_clip e obj w0 = (Inr (Some c), w1)"
    show "kept c = (\<exists>tags. fst (get_object_tagging e (clip_key c) w) = Inr tags
                      \<and> (''keep'', ''true'') \<in> set tags)"
      using list_entry_clip_Some(1,4) [OF b] o by (simp add: fst_get_object_tagging)
  qed
  then show ?thesis using assms(2) by blast
qed


lemma sort_newest_first_sorted:
  "sorted_wrt (\<lambda>a b. timestamp b \<le> timestamp a) (sort_newest_first clips)"
proof -
  have "sorted (map timestamp (sort_key timestamp (rev clips)))" by (rule sorted_sort_key)
  then have "sorted_wrt (\<lambda>a b. timestamp a \<le> timestamp b) (sort_key timestamp (rev clips))"
    by (simp add: sorted_map)
  then show ?thesis by (simp add: sort_newest_first_def sorted_wrt_rev)
qed

lemma descending_distinct_strict:
  fixes f :: "'a \<Rightarrow> 'b :: linorder"
  shows "sorted_wrt (\<lambda>a b. f b \<le> f a) xs \<Longrightarrow> distinct (map f xs)
         \<Longrightarrow> sorted_wrt (\<lambda>a b. f b < f a) xs"
proof (induction xs)
  case Nil
  then show ?case by simp
next
  case (Cons a xs)
  have ne: "\<forall>x \<in> set xs. f x \<noteq> f a" 
  proof
    fix x assume "x \<in> set xs"
    then have "f x \<in> f ` set xs" by (rule imageI)
    moreover have "f a \<notin> f ` set xs" using Cons.prems(2) by simp
    ultimately show "f x \<noteq> f a" by metis
  qed
  have le: "\<forall>x \<in> set xs. f x \<le> f a" using Cons.prems(1) by simp
  have "\<forall>x \<in> set xs. f x < f a" using ne le by (simp add: less_le)
  moreover have "sorted_wrt (\<lambda>a b. f b < f a) xs" using Cons by simp
  ultimately show ?case by simp
qed

text \<open>
  An entry that the loop body skips has a key that does not end in \<open>.avi\<close>; so the clips
  that the loops collect are, in the order of the listing, the entries whose key does.
\<close>

lemma list_entry_clip_None:
  assumes "list_entry_clip e obj w = (Inr None, w1)"
  shows "\<not> endswith (Key obj) ''.avi''"
  using assms
  by (auto simp: list_entry_clip_def Let_def split: if_splits prod.splits sum.splits)

lemma list_entries_keys:
  assumes "list_entries e objs clips w = (Inr out, w')"
  shows "map clip_key out = map clip_key clips @ filter (\<lambda>k. endswith k ''.avi'') (map Key objs)"
  using assms
proof (induction objs arbitrary: clips w)
  case Nil
  then show ?case by simp
next
  case (Cons obj objs)
  obtain r w1 where b: "list_entry_clip e obj w = (r, w1)" by (cases "list_entry_clip e obj w")
  show ?case
  proof (cases r)
    case (Inl x)
    then show ?thesis using Cons.prems b by simp
  next
    case (Inr oc)
    show ?thesis
    proof (cases oc)
      case None
      have n: "\<not> endswith (Key obj) ''.avi''"
        using b [unfolded Inr None] by (rule list_entry_clip_None)
      have "list_entries e objs clips w1 = (Inr out, w')"
        using Cons.prems b Inr None by simp
      from Cons.IH [OF this] show ?thesis using n by simp
    next
      case (Some c)
      have k: "clip_key c = Key obj" "endswith (Key obj) ''.avi''"
        using list_entry_clip_Some(1,2) [OF b [unfolded Inr Some]] .
      have "list_entries e objs (clips @ [c]) w1 = (Inr out, w')"
        using Cons.prems b Inr Some by simp
      from Cons.IH [OF this] show ?thesis using k by simp
    qed
  qed
qed

lemma list_pages_keys:
  assumes "list_pages e ps clips w = (Inr out, w')"
  shows "map clip_key out
         = map clip_key clips
           @ filter (\<lambda>k. endswith k ''.avi'')
               (map Key (concat (map (\<lambda>p. case Contents p of None \<Rightarrow> [] | Some objs \<Rightarrow> objs)
                                   ps)))"
  using assms
proof (induction ps arbitrary: clips w)
  case Nil
  then show ?case by simp
next
  case (Cons p ps)
  obtain r w1 where
    b: "list_entries e (case Contents p of None \<Rightarrow> [] | Some objs \<Rightarrow> objs) clips w = (r, w1)"
    by (cases "list_entries e (case Contents p of None \<Rightarrow> [] | Some objs \<Rightarrow> objs) clips w")
  show ?case
  proof (cases r)
    case (Inl x)
    then show ?thesis using Cons.prems b by simp
  next
    case (Inr clips1)
    have m: "map clip_key clips1
              = map clip_key clips
                @ filter (\<lambda>k. endswith k ''.avi'')
                    (map Key (case Contents p of None \<Rightarrow> [] | Some objs \<Rightarrow> objs))"
      using b [unfolded Inr] by (rule list_entries_keys)
    have "list_pages e ps clips1 w1 = (Inr out, w')" using Cons.prems b Inr by simp
    from Cons.IH [OF this] show ?thesis using m by simp
  qed
qed

lemma paginate_keys:
  assumes "paginate e pfx n w = (Inr pages, w1)" and "0 < n"
  shows "map Key (concat (map (\<lambda>p. case Contents p of None \<Rightarrow> [] | Some objs \<Rightarrow> objs) pages))
         = map fst (sort_key fst (filter (\<lambda>(k, ob). startswith k pfx) (objects w)))"
proof -
  define found where "found =
    map (\<lambda>(k, ob). \<lparr>Key = k, LastModified = obj_last_modified ob, Size = obj_size ob\<rparr>)
      (sort_key fst (filter (\<lambda>(k, ob). startswith k pfx) (objects w)))"
  have k: "map Key found = map fst (sort_key fst (filter (\<lambda>(k, ob). startswith k pfx) (objects w)))"
    by (auto simp: found_def)
  have c: "concat (map (\<lambda>p. case Contents p of None \<Rightarrow> [] | Some objs \<Rightarrow> objs)
                     (if found = [] then [\<lparr>Contents = None\<rparr>]
                      else map (\<lambda>ch. \<lparr>Contents = Some ch\<rparr>) (chunks n found))) = found"
    using concat_chunks [OF assms(2), of found] by (simp add: comp_def)
  have "pages = (if found = [] then [\<lparr>Contents = None\<rparr>]
                 else map (\<lambda>ch. \<lparr>Contents = Some ch\<rparr>) (chunks n found))"
    using assms(1)
    by (auto simp: paginate_def Let_def found_def [symmetric] split: option.splits)
  then show ?thesis using c k by simp
qed

lemma mset_sort_newest_first: "mset (sort_newest_first clips) = mset clips"
  by (simp add: sort_newest_first_def)

text \<open>
  C5. The clips that the handler lists are one for each object under \<open>clips/\<close> whose key
  ends in \<open>.avi\<close>, in the order of the keys. The list that the handler returns holds the
  same clips, each as often as it is listed (it is a permutation of them), in descending
  order of the \<open>timestamp\<close> strings; when the timestamps of the listed clips are distinct,
  each timestamp of the returned list is strictly greater than all that follow it.
\<close>

theorem list_sorted_newest_first:
  assumes "list_handler e w = (Inr resp, w')"
  shows "\<exists>pages w1 clips.
           paginate e ''clips/'' 1000 w = (Inr pages, w1)
           \<and> list_pages e pages [] w1 = (Inr clips, w')
           \<and> map clip_key clips
               = filter (\<lambda>k. endswith k ''.avi'')
                   (map fst (sort_key fst (filter (\<lambda>(k, ob). startswith k ''clips/'') (objects w))))
           \<and> mset (body resp) = mset clips
           \<and> sorted_wrt (\<lambda>a b. timestamp b \<le> timestamp a) (body resp)
           \<and> (distinct (map timestamp clips) \<longrightarrow>
                sorted_wrt (\<lambda>a b. timestamp b < timestamp a) (body resp))"
proof -
  obtain pages w1 where p: "paginate e ''clips/'' 1000 w = (Inr pages, w1)"
    using assms by (auto simp: list_handler_def split: prod.splits sum.splits)
  obtain clips where l: "list_pages e pages [] w1 = (Inr clips, w')"
      and b: "body resp = sort_newest_first clips"
    using assms p by (auto simp: list_handler_def split: prod.splits sum.splits)
  have ks: "map Key (concat (map (\<lambda>p. case Contents p of None \<Rightarrow> [] | Some objs \<Rightarrow> objs) pages))
            = map fst (sort_key fst (filter (\<lambda>(k, ob). startswith k ''clips/'') (objects w)))"
    using p by (rule paginate_keys) simp
  have k: "map clip_key clips
               = filter (\<lambda>k. endswith k ''.avi'')
                   (map fst (sort_key fst (filter (\<lambda>(k, ob). startswith k ''clips/'') (objects w))))"
    using list_pages_keys [OF l] ks by simp
  have m: "mset (body resp) = mset clips" unfolding b by (rule mset_sort_newest_first)
  have s: "sorted_wrt (\<lambda>a b. timestamp b \<le> timestamp a) (body resp)"
    unfolding b by (rule sort_newest_first_sorted)
  have st: "sorted_wrt (\<lambda>a b. timestamp b < timestamp a) (body resp)"
    if d: "distinct (map timestamp clips)"
  proof -
    have "mset (map timestamp (body resp)) = mset (map timestamp clips)" using m by simp
    then have "distinct (map timestamp (body resp)) = distinct (map timestamp clips)"
      by (rule mset_eq_imp_distinct_iff)
    then have "distinct (map timestamp (body resp))" using d by (rule iffD2)
    with s show ?thesis by (rule descending_distinct_strict)
  qed
  show ?thesis using p l k m s st by blast
qed

text \<open>
  When the only calls the service fails are tag reads, and it fails them with a
  \<open>ClientError\<close>, the loop body never raises and skips exactly the keys that do not end
  in \<open>.avi\<close>.
\<close>

lemma only_tag_reads_fail:
  assumes "\<forall>c x. fault e c = Some x \<longrightarrow> is_ClientError x \<and> (\<exists>b k. c = GetObjectTagging b k)"
  shows "fault e (GeneratePresignedUrl m b k x) = None"
    and "fault e (HeadObject b k) = None"
    and "fault e (ListObjectsV2 b k n) = None"
    and "fault e (GetObjectTagging b k) = Some y \<Longrightarrow> is_ClientError y"
proof -
  have a: "\<And>c. (\<forall>b k. c \<noteq> GetObjectTagging b k) \<Longrightarrow> fault e c = None"
    using assms by (metis not_Some_eq)
  show "fault e (GeneratePresignedUrl m b k x) = None" by (rule a) simp
  show "fault e (HeadObject b k) = None" by (rule a) simp
  show "fault e (ListObjectsV2 b k n) = None" by (rule a) simp
  show "fault e (GetObjectTagging b k) = Some y \<Longrightarrow> is_ClientError y" using assms by blast
qed

lemma head_object_client_error:
  assumes "fault e (HeadObject (BUCKET e) k) = None"
  shows "\<exists>r. head_object e k w = (r, logged (HeadObject (BUCKET e) k) w)
             \<and> (\<forall>x. r = Inl x \<longrightarrow> is_ClientError x)"
  using assms by (auto simp: head_object_def Let_def split: option.splits)

lemma get_object_tagging_client_error:
  assumes "\<And>y. fault e (GetObjectTagging (BUCKET e) k) = Some y \<Longrightarrow> is_ClientError y"
  shows "\<exists>r. get_object_tagging e k w = (r, logged (GetObjectTagging (BUCKET e) k) w)
             \<and> (\<forall>x. r = Inl x \<longrightarrow> is_ClientError x)"
  using assms by (auto simp: get_object_tagging_def Let_def split: option.splits)

lemma list_entry_clip_total:
  assumes only: "\<forall>c x. fault e c = Some x \<longrightarrow> is_ClientError x \<and> (\<exists>b k. c = GetObjectTagging b k)"
  shows "\<exists>r w1. list_entry_clip e obj w = (Inr r, w1)
                \<and> (r = None \<longleftrightarrow> \<not> endswith (Key obj) ''.avi'')"
proof (cases "endswith (Key obj) ''.avi''")
  case False
  then show ?thesis by (simp add: list_entry_clip_def)
next
  case True
  note nf = only_tag_reads_fail [OF only]
  define tk where "tk = ''thumbs/'' @ slice_from_to_end (Key obj) (length ''clips/'') (length ''.avi'')
                          @ ''_thumb.jpg''"
  define wa where "wa = logged (GeneratePresignedUrl ''get_object'' (BUCKET e) (Key obj) GET_EXPIRY) w"
  have g1: "generate_presigned_url e ''get_object'' (Key obj) GET_EXPIRY w
              = (Inr (presigned e ''get_object'' (BUCKET e) (Key obj) GET_EXPIRY), wa)"
    by (simp add: generate_presigned_url_def nf(1) wa_def)
  obtain rh where h: "head_object e tk wa = (rh, logged (HeadObject (BUCKET e) tk) wa)"
      and hc: "\<forall>x. rh = Inl x \<longrightarrow> is_ClientError x"
    using head_object_client_error [OF nf(2), where k = tk and w = wa] by blast
  have g2: "\<And>w2. generate_presigned_url e ''get_object'' tk GET_EXPIRY w2
              = (Inr (presigned e ''get_object'' (BUCKET e) tk GET_EXPIRY),
                 logged (GeneratePresignedUrl ''get_object'' (BUCKET e) tk GET_EXPIRY) w2)"
    by (simp add: generate_presigned_url_def nf(1))
  have t: "\<And>w3. \<exists>rt w4. get_object_tagging e (Key obj) w3 = (rt, w4)
                  \<and> (\<forall>x. rt = Inl x \<longrightarrow> is_ClientError x)"
    using get_object_tagging_client_error [of e "Key obj"] nf(4) by blast
  show ?thesis
  proof (cases rh)
    case (Inl x)
    then have cx: "is_ClientError x" using hc by simp
    obtain rt w4 where gt: "get_object_tagging e (Key obj) (logged (HeadObject (BUCKET e) tk) wa)
                             = (rt, w4)" and tc: "\<forall>x. rt = Inl x \<longrightarrow> is_ClientError x"
      using t by blast
    show ?thesis
      unfolding list_entry_clip_def Let_def tk_def [symmetric]
      using True g1 h Inl cx gt tc
      by (cases rt) auto
  next
    case (Inr u)
    obtain rt w4 where gt: "get_object_tagging e (Key obj)
          (logged (GeneratePresignedUrl ''get_object'' (BUCKET e) tk GET_EXPIRY)
             (logged (HeadObject (BUCKET e) tk) wa)) = (rt, w4)"
        and tc: "\<forall>x. rt = Inl x \<longrightarrow> is_ClientError x"
      using t by blast
    show ?thesis
      unfolding list_entry_clip_def Let_def tk_def [symmetric]
      using True g1 h Inr g2 gt tc
      by (cases rt) auto
  qed
qed


lemma list_entries_total:
  assumes only: "\<forall>c x. fault e c = Some x \<longrightarrow> is_ClientError x \<and> (\<exists>b k. c = GetObjectTagging b k)"
  shows "\<exists>out w'. list_entries e objs clips w = (Inr out, w')
           \<and> map clip_key out
               = map clip_key clips @ filter (\<lambda>k. endswith k ''.avi'') (map Key objs)"
proof (induction objs arbitrary: clips w)
  case Nil
  then show ?case by simp
next
  case (Cons obj objs)
  obtain r w1 where b: "list_entry_clip e obj w = (Inr r, w1)"
      and n: "r = None \<longleftrightarrow> \<not> endswith (Key obj) ''.avi''"
    using list_entry_clip_total [OF only, of obj w] by blast
  show ?case
  proof (cases r)
    case None
    then show ?thesis using b n Cons.IH [of clips w1] by simp
  next
    case (Some c)
    have "clip_key c = Key obj" using list_entry_clip_Some(1) b Some by blast
    then show ?thesis using b n Some Cons.IH [of "clips @ [c]" w1] by simp
  qed
qed

lemma list_pages_total:
  assumes only: "\<forall>c x. fault e c = Some x \<longrightarrow> is_ClientError x \<and> (\<exists>b k. c = GetObjectTagging b k)"
  shows "\<exists>out w'. list_pages e ps clips w = (Inr out, w')
           \<and> map clip_key out
               = map clip_key clips
                 @ filter (\<lambda>k. endswith k ''.avi'')
                     (map Key (concat (map (\<lambda>p. case Contents p of None \<Rightarrow> [] | Some objs \<Rightarrow> objs)
                                         ps)))"
proof (induction ps arbitrary: clips w)
  case Nil
  then show ?case by simp
next
  case (Cons p ps)
  obtain clips1 w1 where
    b: "list_entries e (case Contents p of None \<Rightarrow> [] | Some objs \<Rightarrow> objs) clips w
          = (Inr clips1, w1)"
    and m: "map clip_key clips1
              = map clip_key clips
                @ filter (\<lambda>k. endswith k ''.avi'')
                    (map Key (case Contents p of None \<Rightarrow> [] | Some objs \<Rightarrow> objs))"
    using list_entries_total [OF only] by blast
  show ?case using b m Cons.IH [of clips1 w1] by auto
qed

lemma paginate_total:
  assumes "fault e (ListObjectsV2 (BUCKET e) pfx n) = None" and "0 < n"
  shows "\<exists>pages w1. paginate e pfx n w = (Inr pages, w1) \<and> objects w1 = objects w
           \<and> map Key (concat (map (\<lambda>p. case Contents p of None \<Rightarrow> [] | Some objs \<Rightarrow> objs)
                                 pages))
               = map fst (sort_key fst (filter (\<lambda>(k, ob). startswith k pfx) (objects w)))"
proof -
  define found where "found =
    map (\<lambda>(k, ob). \<lparr>Key = k, LastModified = obj_last_modified ob, Size = obj_size ob\<rparr>)
      (sort_key fst (filter (\<lambda>(k, ob). startswith k pfx) (objects w)))"
  have k: "map Key found = map fst (sort_key fst (filter (\<lambda>(k, ob). startswith k pfx) (objects w)))"
    by (auto simp: found_def)
  have c: "concat (map (\<lambda>p. case Contents p of None \<Rightarrow> [] | Some objs \<Rightarrow> objs)
                     (if found = [] then [\<lparr>Contents = None\<rparr>]
                      else map (\<lambda>ch. \<lparr>Contents = Some ch\<rparr>) (chunks n found))) = found"
    using concat_chunks [OF assms(2), of found] by (simp add: comp_def)
  show ?thesis
    using assms(1) k c
    by (simp add: paginate_def Let_def logged_def found_def [symmetric])
qed


lemma sort_key_filter_length:
  "length (filter P (map fst (sort_key fst xs))) = length (filter (\<lambda>(k, ob). P k) xs)"
proof -
  have "filter P (map fst (sort_key fst xs)) = map fst (filter (P \<circ> fst) (sort_key fst xs))"
    by (simp add: filter_map)
  also have "filter (P \<circ> fst) (sort_key fst xs) = sort_key fst (filter (P \<circ> fst) xs)"
    by (simp add: filter_sort)
  finally have "length (filter P (map fst (sort_key fst xs))) = length (filter (P \<circ> fst) xs)"
    by simp
  moreover have "P \<circ> fst = (\<lambda>(k, ob). P k)" by auto
  ultimately show ?thesis by metis
qed

text \<open>
  C10. When the only calls that fail are tag reads, failing with a \<open>ClientError\<close>, the
  handler returns the 200 response; it holds one record for each object under \<open>clips/\<close>
  whose key ends in \<open>.avi\<close>, and every clip whose tag read fails is there with
  \<open>kept = false\<close>.
\<close>

theorem list_survives_tag_read_failure:
  assumes only: "\<forall>c x. fault e c = Some x \<longrightarrow> is_ClientError x \<and> (\<exists>b k. c = GetObjectTagging b k)"
  shows "\<exists>resp w'. list_handler e w = (Inr resp, w') \<and> statusCode resp = 200
           \<and> set (map clip_key (body resp))
               = {k \<in> fst ` set (objects w). startswith k ''clips/'' \<and> endswith k ''.avi''}
           \<and> length (body resp)
               = length (filter (\<lambda>(k, ob). startswith k ''clips/'' \<and> endswith k ''.avi'')
                           (objects w))
           \<and> (\<forall>c \<in> set (body resp).
                 fault e (GetObjectTagging (BUCKET e) (clip_key c)) \<noteq> None \<longrightarrow> \<not> kept c)"
proof -
  note nf = only_tag_reads_fail [OF only]
  obtain pages w1 where p: "paginate e ''clips/'' 1000 w = (Inr pages, w1)"
      and ks: "map Key (concat (map (\<lambda>p. case Contents p of None \<Rightarrow> [] | Some objs \<Rightarrow> objs)
                                  pages))
               = map fst (sort_key fst (filter (\<lambda>(k, ob). startswith k ''clips/'') (objects w)))"
    using paginate_total [OF nf(3), of 1000 "''clips/''" w] by auto
  obtain clips w2 where l: "list_pages e pages [] w1 = (Inr clips, w2)"
      and m: "map clip_key clips
               = filter (\<lambda>k. endswith k ''.avi'')
                   (map fst (sort_key fst (filter (\<lambda>(k, ob). startswith k ''clips/'') (objects w))))"
    using list_pages_total [OF only, of pages "[]" w1] ks by auto
  define resp where "resp = \<lparr>statusCode = 200,
      headers = [(''Content-Type'', ''application/json'')], body = sort_newest_first clips\<rparr>"
  have h: "list_handler e w = (Inr resp, w2)" by (simp add: list_handler_def p l resp_def)
  have b: "body resp = sort_newest_first clips" by (simp add: resp_def)
  have s1: "set (map clip_key (body resp)) = set (map clip_key clips)"
    by (simp add: b sort_newest_first_def)
  have s2: "set (map clip_key clips)
            = {k \<in> fst ` set (objects w). startswith k ''clips/'' \<and> endswith k ''.avi''}"
    unfolding m by force
  have l1: "length (body resp) = length (map clip_key clips)"
    by (simp add: b sort_newest_first_def)
  have l2: "length (map clip_key clips)
            = length (filter (\<lambda>(k, ob). startswith k ''clips/'' \<and> endswith k ''.avi'') (objects w))"
    unfolding m sort_key_filter_length by (simp add: case_prod_unfold conj_commute)
  have kp: "\<forall>c \<in> set (body resp).
              fault e (GetObjectTagging (BUCKET e) (clip_key c)) \<noteq> None \<longrightarrow> \<not> kept c"
    using list_kept_iff [OF h] by (auto simp: fst_get_object_tagging read_tags_def)
  show ?thesis using h s1 s2 l1 l2 kp by (auto simp: resp_def)
qed


lemma example_timestamps:
  "parse_timestamp e ''cam1_20260221_120000'' = Some ''2026-02-21T12:00:00+00:00''"
  "parse_timestamp e ''cam2_20260222_080000'' = Some ''2026-02-22T08:00:00+00:00''"
  using parse_timestamp_ascii [of 2 0 2 6 0 2 2 1 1 2 0 0 0 0 "[]" e "''cam1''"]
    parse_timestamp_ascii [of 2 0 2 6 0 2 2 2 0 8 0 0 0 0 "[]" e "''cam2''"]
  by (simp_all add: char_of_digits)

lemma example_pages:
  "paginate example_env ''clips/'' 1000 example_world =
    (Inr [\<lparr>Contents = Some
            [\<lparr>Key = ''clips/cam1_20260221_120000.avi'',
              LastModified = ''2026-02-21T12:00:41+00:00'', Size = 9856614\<rparr>,
             \<lparr>Key = ''clips/cam2_20260222_080000.avi'',
              LastModified = ''2026-02-22T08:00:30+00:00'', Size = 1048576\<rparr>]\<rparr>],
     example_world\<lparr>calls := [ListObjectsV2 ''cam-bucket'' ''clips/'' 1000]\<rparr>)"
  "paginate tag_read_denied ''clips/'' 1000 example_world =
    (Inr [\<lparr>Contents = Some
            [\<lparr>Key = ''clips/cam1_20260221_120000.avi'',
              LastModified = ''2026-02-21T12:00:41+00:00'', Size = 9856614\<rparr>,
             \<lparr>Key = ''clips/cam2_20260222_080000.avi'',
              LastModified = ''2026-02-22T08:00:30+00:00'', Size = 1048576\<rparr>]\<rparr>],
     example_world\<lparr>calls := [ListObjectsV2 ''cam-bucket'' ''clips/'' 1000]\<rparr>)"
  by (simp_all add: paginate_def tag_read_denied_def example_env_def example_world_def
        startswith_def logged_def chunks_one_page)

lemmas list_eval =
  list_entry_clip_def endswith_def slice_from_to_end_def generate_presigned_url_def
  head_object_def get_object_tagging_def logged_def GET_EXPIRY_def example_timestamps
  sort_newest_first_def tag_read_denied_def example_env_def example_world_def Let_def

lemma example_listing:
  "list_handler example_env example_world =
  (Inr \<lparr>statusCode = 200, headers = [(''Content-Type'', ''application/json'')],
       body = [\<lparr>clip_key = ''clips/cam2_20260222_080000.avi'',
                clip_url = ''https://cam-bucket/clips/cam2_20260222_080000.avi?get_object'',
                thumb_url = None, timestamp = ''2026-02-22T08:00:00+00:00'',
                size_bytes = 1048576, kept = True\<rparr>,
               \<lparr>clip_key = ''clips/cam1_20260221_120000.avi'',
                clip_url = ''https://cam-bucket/clips/cam1_20260221_120000.avi?get_object'',
                thumb_url = Some ''https://cam-bucket/thumbs/cam1_20260221_120000_thumb.jpg?get_object'',
                timestamp = ''2026-02-21T12:00:00+00:00'',
                size_bytes = 9856614, kept = False\<rparr>]\<rparr>,
   example_world\<lparr>calls :=
     [ListObjectsV2 ''cam-bucket'' ''clips/'' 1000,
      GeneratePresignedUrl ''get_object'' ''cam-bucket'' ''clips/cam1_20260221_120000.avi'' 604800,
      HeadObject ''cam-bucket'' ''thumbs/cam1_20260221_120000_thumb.jpg'',
      GeneratePresignedUrl ''get_object'' ''cam-bucket'' ''thumbs/cam1_20260221_120000_thumb.jpg'' 604800,
      GetObjectTagging ''cam-bucket'' ''clips/cam1_20260221_120000.avi'',
      GeneratePresignedUrl ''get_object'' ''cam-bucket'' ''clips/cam2_20260222_080000.avi'' 604800,
      HeadObject ''cam-bucket'' ''thumbs/cam2_20260222_080000_thumb.jpg'',
      GetObjectTagging ''cam-bucket'' ''clips/cam2_20260222_080000.avi'']\<rparr>)"
  unfolding list_handler_def example_pages
  by (simp add: list_eval)

lemma example_listing_denied:
  "list_handler tag_read_denied example_world =
  (Inr \<lparr>statusCode = 200, headers = [(''Content-Type'', ''application/json'')],
       body = [\<lparr>clip_key = ''clips/cam2_20260222_080000.avi'',
                clip_url = ''https://cam-bucket/clips/cam2_20260222_080000.avi?get_object'',
                thumb_url = None, timestamp = ''2026-02-22T08:00:00+00:00'',
                size_bytes = 1048576, kept = False\<rparr>,
               \<lparr>clip_key = ''clips/cam1_20260221_120000.avi'',
                clip_url = ''https://cam-bucket/clips/cam1_20260221_120000.avi?get_object'',
                thumb_url = Some ''https://cam-bucket/thumbs/cam1_20260221_120000_thumb.jpg?get_object'',
                timestamp = ''2026-02-21T12:00:00+00:00'',
                size_bytes = 9856614, kept = False\<rparr>]\<rparr>,
   example_world\<lparr>calls :=
     [ListObjectsV2 ''cam-bucket'' ''clips/'' 1000,
      GeneratePresignedUrl ''get_object'' ''cam-bucket'' ''clips/cam1_20260221_120000.avi'' 604800,
      HeadObject ''cam-bucket'' ''thumbs/cam1_20260221_120000_thumb.jpg'',
      GeneratePresignedUrl ''get_object'' ''cam-bucket'' ''thumbs/cam1_20260221_120000_thumb.jpg'' 604800,
      GetObjectTagging ''cam-bucket'' ''clips/cam1_20260221_120000.avi'',
      GeneratePresignedUrl ''get_object'' ''cam-bucket'' ''clips/cam2_20260222_080000.avi'' 604800,
      HeadObject ''cam-bucket'' ''thumbs/cam2_20260222_080000_thumb.jpg'',
      GetObjectTagging ''cam-bucket'' ''clips/cam2_20260222_080000.avi'']\<rparr>)"
  unfolding list_handler_def example_pages
  by (simp add: list_eval)


theorem list_sorted_newest_first_witness:
  "\<exists>resp w' pages w1 clips.
      list_handler example_env example_world = (Inr resp, w')
      \<and> paginate example_env ''clips/'' 1000 example_world = (Inr pages, w1)
      \<and> list_pages example_env pages [] w1 = (Inr clips, w')
      \<and> map clip_key clips = [''clips/cam1_20260221_120000.avi'', ''clips/cam2_20260222_080000.avi'']
      \<and> distinct (map timestamp clips)
      \<and> mset (body resp) = mset clips
      \<and> map timestamp (body resp) = [''2026-02-22T08:00:00+00:00'', ''2026-02-21T12:00:00+00:00'']
      \<and> sorted_wrt (\<lambda>a b. timestamp b < timestamp a) (body resp)"
proof -
  obtain r w' where h: "list_handler example_env example_world = (Inr r, w')"
      and b: "map timestamp (body r)
              = [''2026-02-22T08:00:00+00:00'', ''2026-02-21T12:00:00+00:00'']"
    using example_listing by simp
  obtain pages w1 clips where
    p: "paginate example_env ''clips/'' 1000 example_world = (Inr pages, w1)"
    and l: "list_pages example_env pages [] w1 = (Inr clips, w')"
    and k: "map clip_key clips
             = filter (\<lambda>k. endswith k ''.avi'')
                 (map fst (sort_key fst (filter (\<lambda>(k, ob). startswith k ''clips/'')
                                           (objects example_world))))"
    and m: "mset (body r) = mset clips"
    and st: "distinct (map timestamp clips) \<longrightarrow>
               sorted_wrt (\<lambda>a b. timestamp b < timestamp a) (body r)"
    using list_sorted_newest_first [OF h] by blast
  have k': "map clip_key clips
            = [''clips/cam1_20260221_120000.avi'', ''clips/cam2_20260222_080000.avi'']"
    unfolding k by (simp add: example_world_def startswith_def endswith_def)
  have "mset (map timestamp (body r)) = mset (map timestamp clips)" using m by simp
  then have "distinct (map timestamp (body r)) = distinct (map timestamp clips)"
    by (rule mset_eq_imp_distinct_iff)
  moreover have "distinct (map timestamp (body r))" unfolding b by simp
  ultimately have d: "distinct (map timestamp clips)" by (rule iffD1)
  have s: "sorted_wrt (\<lambda>a b. timestamp b < timestamp a) (body r)" using st d by (rule mp)
  show ?thesis
    by (rule exI [of _ r], rule exI [of _ w'], rule exI [of _ pages], rule exI [of _ w1],
        rule exI [of _ clips], intro conjI h p l k' d m b s)
qed

theorem list_survives_tag_read_failure_witness:
  "fault tag_read_denied (GetObjectTagging ''cam-bucket'' ''clips/cam2_20260222_080000.avi'')
     = Some (ClientError ''AccessDenied'')
   \<and> (\<exists>resp w'. list_handler tag_read_denied example_world = (Inr resp, w')
        \<and> statusCode resp = 200
        \<and> map (\<lambda>c. (clip_key c, kept c)) (body resp)
            = [(''clips/cam2_20260222_080000.avi'', False),
               (''clips/cam1_20260221_120000.avi'', False)])"
proof -
  have only: "\<forall>c x. fault tag_read_denied c = Some x \<longrightarrow>
                is_ClientError x \<and> (\<exists>b k. c = GetObjectTagging b k)"
    by (auto simp: tag_read_denied_def split: call.splits if_splits)
  have f: "fault tag_read_denied (GetObjectTagging ''cam-bucket'' ''clips/cam2_20260222_080000.avi'')
     = Some (ClientError ''AccessDenied'')"
    by (simp add: tag_read_denied_def)
  have bk: "BUCKET tag_read_denied = ''cam-bucket''"
    by (simp add: tag_read_denied_def example_env_def)
  obtain resp w' where h: "list_handler tag_read_denied example_world = (Inr resp, w')"
      and st: "statusCode resp = 200"
      and kp: "\<forall>c \<in> set (body resp).
                 fault tag_read_denied (GetObjectTagging (BUCKET tag_read_denied) (clip_key c))
                   \<noteq> None \<longrightarrow> \<not> kept c"
    using list_survives_tag_read_failure [OF only, of example_world] by blast
  have b: "map clip_key (body resp)
              = [''clips/cam2_20260222_080000.avi'', ''clips/cam1_20260221_120000.avi'']"
     and k1: "map kept (tl (body resp)) = [False]"
    using example_listing_denied h by simp_all
  obtain c2 c1 where cs: "body resp = [c2, c1]"
      and k2: "clip_key c2 = ''clips/cam2_20260222_080000.avi''"
      and k1': "clip_key c1 = ''clips/cam1_20260221_120000.avi''"
    using b by auto
  have "\<not> kept c2" using kp cs k2 f bk by simp
  moreover have "\<not> kept c1" using k1 cs by simp
  ultimately show ?thesis using f h st cs k2 k1' by simp
qed

end
